theory Spec2Isabelle
  imports Main "HOL-Library.Sublist"
begin

section \<open>Text, characters and the character tables of the interpreter\<close>

text \<open>
  A Python \<open>str\<close> is a sequence of Unicode code points. The rupee sign of the amount patterns
  is the code point 8377, outside the range of \<^typ>\<open>char\<close>, so the transcript is a list of
  code points. The constants of the source are ASCII and are written as HOL string literals,
  converted with \<open>ustr\<close>.
\<close>

type_synonym uchar = nat
type_synonym ustring = "uchar list"

definition ustr :: "string \<Rightarrow> ustring" where
  "ustr s = map of_char s"

definition rupee :: uchar where
  "rupee = 8377"

text \<open>
  \<open>str.lower\<close>, the classes \<open>\d\<close> and \<open>\s\<close>, the digits accepted by \<open>float\<close> and the case
  folding of \<open>re.IGNORECASE\<close> are tables of the interpreter, not of this repository. On ASCII
  and on the rupee sign (a currency symbol: no case, no digit, no space) they are fixed and
  written out below. On every other code point they depend on the Unicode version of the
  interpreter and are a parameter of the extractor: \<open>lower_char seen c rest\<close> is what
  \<open>str.lower\<close> puts for \<open>c\<close> between the characters \<open>seen\<close> (nearest first) and \<open>rest\<close>,
  \<open>is_decimal\<close> and \<open>decimal_value\<close> describe the decimal digits (the same property for \<open>\d\<close>
  and for \<open>float\<close>), \<open>is_space\<close> is the class \<open>\s\<close>, and \<open>case_variant c x\<close> says that the
  character \<open>x\<close> matches the pattern letter \<open>c\<close> when case is ignored.
\<close>

record ucd =
  lower_char :: "ustring \<Rightarrow> uchar \<Rightarrow> ustring \<Rightarrow> ustring"
  is_decimal :: "uchar \<Rightarrow> bool"
  decimal_value :: "uchar \<Rightarrow> nat"
  is_space :: "uchar \<Rightarrow> bool"
  case_variant :: "uchar \<Rightarrow> uchar \<Rightarrow> bool"

definition fixed_char :: "uchar \<Rightarrow> bool" where
  "fixed_char c = (c < 128 \<or> c = rupee)"

definition ascii_lower :: "uchar \<Rightarrow> uchar" where
  "ascii_lower c = (if 65 \<le> c \<and> c \<le> 90 then c + 32 else c)"

definition ascii_upper :: "uchar \<Rightarrow> uchar" where
  "ascii_upper c = (if 97 \<le> c \<and> c \<le> 122 then c - 32 else c)"

definition ascii_letter :: "uchar \<Rightarrow> bool" where
  "ascii_letter c = ((65 \<le> c \<and> c \<le> 90) \<or> (97 \<le> c \<and> c \<le> 122))"

fun lower_from :: "ucd \<Rightarrow> ustring \<Rightarrow> ustring \<Rightarrow> ustring" where
  "lower_from u seen [] = []"
| "lower_from u seen (c # cs) =
     (if fixed_char c then [ascii_lower c] else lower_char u seen c cs)
       @ lower_from u (c # seen) cs"

definition py_lower :: "ucd \<Rightarrow> ustring \<Rightarrow> ustring" where
  "py_lower u s = lower_from u [] s"

definition digit :: "ucd \<Rightarrow> uchar \<Rightarrow> bool" where
  "digit u c = (if fixed_char c then 48 \<le> c \<and> c \<le> 57 else is_decimal u c)"

definition digit_value :: "ucd \<Rightarrow> uchar \<Rightarrow> nat" where
  "digit_value u c = (if fixed_char c then c - 48 else decimal_value u c)"

definition space :: "ucd \<Rightarrow> uchar \<Rightarrow> bool" where
  "space u c = (if fixed_char c then (9 \<le> c \<and> c \<le> 13) \<or> (28 \<le> c \<and> c \<le> 32) else is_space u c)"

text \<open>
  A pattern character \<open>c\<close> against a text character \<open>x\<close>. Without \<open>re.IGNORECASE\<close> they must
  be equal. With it, a letter also matches its other case, and the characters outside ASCII
  that fold to it.
\<close>

definition lit_match :: "ucd \<Rightarrow> bool \<Rightarrow> uchar \<Rightarrow> uchar \<Rightarrow> bool" where
  "lit_match u ic c x =
     (x = c \<or> (ic \<and> ascii_letter c \<and>
        (if fixed_char x then ascii_letter x \<and> ascii_lower x = ascii_lower c
         else case_variant u c x)))"

text \<open>Tables with nothing outside ASCII: no further digits, spaces or cased letters.\<close>

definition plain_ucd :: ucd where
  "plain_ucd = \<lparr>
     lower_char = (\<lambda>seen c rest. [c]),
     is_decimal = (\<lambda>c. False),
     decimal_value = (\<lambda>c. 0),
     is_space = (\<lambda>c. False),
     case_variant = (\<lambda>c x. False) \<rparr>"

text \<open>\<open>keyword in text_lower\<close>: the keyword occurs as a contiguous run of the text.\<close>

fun starts_with :: "ustring \<Rightarrow> ustring \<Rightarrow> bool" where
  "starts_with [] t = True"
| "starts_with (k # ks) [] = False"
| "starts_with (k # ks) (c # cs) = (if k = c then starts_with ks cs else False)"

fun contains :: "ustring \<Rightarrow> ustring \<Rightarrow> bool" where
  "contains k [] = starts_with k []"
| "contains k (c # cs) = (if starts_with k (c # cs) then True else contains k cs)"

section \<open>Regular expressions with the search order of \<open>re\<close>\<close>

text \<open>
  The patterns of the source use literals, \<open>\d\<close>, \<open>\s\<close>, sequencing, alternatives, the greedy
  \<open>*\<close>, \<open>+\<close>, \<open>?\<close> and \<open>{m,n}\<close>, and capturing groups. \<open>re\<close> is a backtracking matcher: it tries
  the alternatives from left to right and the longer repetition first, and \<open>re.search\<close>
  returns the first match at the leftmost start position. \<open>run\<close> lists the ways a pattern
  matches a prefix of the text in exactly that order of preference, each with the rest of
  the text and the groups closed so far; the head of the list is the match \<open>re\<close> reports.
\<close>

datatype rx =
    Lit uchar
  | Digit
  | Space
  | Cat rx rx
  | Alt rx rx
  | Star rx
  | Opt rx
  | Rep nat nat rx
  | Grp rx

type_synonym mstate = "ustring \<times> ustring list"

definition one_char :: "(uchar \<Rightarrow> bool) \<Rightarrow> mstate \<Rightarrow> mstate list" where
  "one_char p st = (case fst st of [] \<Rightarrow> [] | x # xs \<Rightarrow> if p x then [(xs, snd st)] else [])"

text \<open>
  Greedy repetition: one more round first, stopping here last. A round that consumes nothing
  is not repeated, so at most \<open>length\<close> of the text rounds happen and the fuel never runs out.
\<close>

primrec many :: "(mstate \<Rightarrow> mstate list) \<Rightarrow> nat \<Rightarrow> mstate \<Rightarrow> mstate list" where
  "many p 0 st = [st]"
| "many p (Suc n) st =
     concat (map (many p n) (filter (\<lambda>st'. length (fst st') < length (fst st)) (p st))) @ [st]"

primrec between :: "(mstate \<Rightarrow> mstate list) \<Rightarrow> nat \<Rightarrow> nat \<Rightarrow> mstate \<Rightarrow> mstate list" where
  "between p lo 0 st = (if lo = 0 then [st] else [])"
| "between p lo (Suc hi) st =
     concat (map (between p (lo - 1) hi) (p st)) @ (if lo = 0 then [st] else [])"

primrec run :: "ucd \<Rightarrow> bool \<Rightarrow> rx \<Rightarrow> mstate \<Rightarrow> mstate list" where
  "run u ic (Lit c) st = one_char (lit_match u ic c) st"
| "run u ic Digit st = one_char (digit u) st"
| "run u ic Space st = one_char (space u) st"
| "run u ic (Cat r1 r2) st = concat (map (run u ic r2) (run u ic r1 st))"
| "run u ic (Alt r1 r2) st = run u ic r1 st @ run u ic r2 st"
| "run u ic (Star r) st = many (run u ic r) (length (fst st)) st"
| "run u ic (Opt r) st = run u ic r st @ [st]"
| "run u ic (Rep lo hi r) st = between (run u ic r) lo hi st"
| "run u ic (Grp r) st =
     map (\<lambda>st'. (fst st', snd st' @ [take (length (fst st) - length (fst st')) (fst st)]))
       (run u ic r st)"

text \<open>\<open>re.search\<close>: the first match at the leftmost position, as the list of its groups.\<close>

fun search :: "ucd \<Rightarrow> bool \<Rightarrow> rx \<Rightarrow> ustring \<Rightarrow> ustring list option" where
  "search u ic r [] = (case run u ic r ([], []) of [] \<Rightarrow> None | st # _ \<Rightarrow> Some (snd st))"
| "search u ic r (c # cs) =
     (case run u ic r (c # cs, []) of [] \<Rightarrow> search u ic r cs | st # _ \<Rightarrow> Some (snd st))"

text \<open>Pattern notation: a word of literals, \<open>+\<close>, and a list of alternatives.\<close>

fun word :: "string \<Rightarrow> rx" where
  "word [] = Rep 0 0 Digit"
| "word [c] = Lit (of_char c)"
| "word (c # cs) = Cat (Lit (of_char c)) (word cs)"

definition Plus :: "rx \<Rightarrow> rx" where
  "Plus r = Cat r (Star r)"

fun cats :: "rx list \<Rightarrow> rx" where
  "cats [] = Rep 0 0 Digit"
| "cats [r] = r"
| "cats (r # rs) = Cat r (cats rs)"

fun alts :: "rx list \<Rightarrow> rx" where
  "alts [] = Rep 1 0 Digit"
| "alts [r] = r"
| "alts (r # rs) = Alt r (alts rs)"

section \<open>Floating-point numbers: \<open>float\<close>, multiplication and \<open>format\<close>\<close>

text \<open>
  A Python float is an IEEE double. The extractor makes floats from unsigned decimal numerals,
  multiplies them by a scale factor and prints them with no fractional digits, so a float
  here is either infinite or a finite value that is not negative, kept as the exact fraction
  \<open>p / q\<close>. Every operation computes the exact result and rounds it to the nearest double,
  ties to the even mantissa, as the hardware and \<open>float\<close> do.
\<close>

datatype pyfloat = Fin nat nat | Inf

definition round_half_even :: "nat \<Rightarrow> nat \<Rightarrow> nat" where
  "round_half_even p q =
     (let d = p div q; r = p mod q
      in if 2 * r < q then d else if q < 2 * r then d + 1 else if even d then d else d + 1)"

fun log2_floor :: "nat \<Rightarrow> nat" where
  "log2_floor n = (if n < 2 then 0 else Suc (log2_floor (n div 2)))"

declare log2_floor.simps [simp del]

function shift_up :: "nat \<Rightarrow> nat \<Rightarrow> nat" where
  "shift_up p q = (if p = 0 \<or> q \<le> p then 0 else Suc (shift_up (2 * p) q))"
  by pat_completeness auto
termination
  by (relation "measure (\<lambda>(p, q). q - p)") auto

declare shift_up.simps [simp del]

text \<open>The position of the leading bit of \<open>p / q\<close>: \<open>2 ^ e \<le> p / q < 2 ^ (e + 1)\<close>.\<close>

definition leading_bit :: "nat \<Rightarrow> nat \<Rightarrow> int" where
  "leading_bit p q = (if q \<le> p then int (log2_floor (p div q)) else - int (shift_up p q))"

text \<open>
  The nearest double: 53 bits of mantissa, the last bit no finer than \<open>2 ^ -1074\<close>, and
  infinity from \<open>2 ^ 1024\<close> on.
\<close>

definition to_double :: "nat \<Rightarrow> nat \<Rightarrow> pyfloat" where
  "to_double p q =
     (if p = 0 then Fin 0 1
      else let e = max (leading_bit p q - 52) (- 1074)
           in if 0 \<le> e
              then (let v = round_half_even p (q * 2 ^ nat e) * 2 ^ nat e
                    in if 1024 \<le> log2_floor v then Inf else Fin v 1)
              else Fin (round_half_even (p * 2 ^ nat (- e)) q) (2 ^ nat (- e)))"

text \<open>
  \<open>float(s)\<close> on the numerals the patterns can hand over: digits, with at most one point
  among them. Any other string is rejected here with \<open>None\<close>, the \<open>ValueError\<close> of the
  source (Python accepts more, such as signs and exponents; accepting less can only add
  failures to the model).
\<close>

definition digits_value :: "ucd \<Rightarrow> ustring \<Rightarrow> nat" where
  "digits_value u ds = foldl (\<lambda>n c. 10 * n + digit_value u c) 0 ds"

definition py_float :: "ucd \<Rightarrow> ustring \<Rightarrow> pyfloat option" where
  "py_float u s =
     (let ip = takeWhile (\<lambda>c. c \<noteq> 46) s;
          fp = drop 1 (dropWhile (\<lambda>c. c \<noteq> 46) s)
      in if ip @ fp \<noteq> [] \<and> list_all (digit u) (ip @ fp)
         then Some (to_double (digits_value u (ip @ fp)) (10 ^ length fp))
         else None)"

text \<open>\<open>x * c\<close> for a whole number \<open>c\<close> that is itself a double.\<close>

fun fmul :: "pyfloat \<Rightarrow> nat \<Rightarrow> pyfloat" where
  "fmul (Fin p q) c = to_double (p * c) q"
| "fmul Inf c = Inf"

text \<open>
  The format \<open>,.0f\<close>: the value rounded to a whole number, ties to even, in decimal with a
  comma before every group of three digits; infinity prints as \<open>inf\<close>.
\<close>

function decimal :: "nat \<Rightarrow> ustring" where
  "decimal n = (if n < 10 then [48 + n] else decimal (n div 10) @ [48 + n mod 10])"
  by pat_completeness auto
termination
  by (relation "measure (\<lambda>n. n)") auto

declare decimal.simps [simp del]

fun group3 :: "ustring \<Rightarrow> ustring" where
  "group3 (a # b # c # d # rest) = a # b # c # 44 # group3 (d # rest)"
| "group3 ds = ds"

definition format_0f :: "pyfloat \<Rightarrow> ustring" where
  "format_0f x =
     (case x of Fin p q \<Rightarrow> rev (group3 (rev (decimal (round_half_even p q))))
              | Inf \<Rightarrow> ustr ''inf'')"

section \<open>The extractor\<close>

text \<open>
  An entity is the dictionary \<open>{'field': ..., 'value': ..., 'confidence': ...}\<close> of the
  source; the field name and the confidence are the source's strings, and \<open>val\<close> is the
  entry \<open>'value'\<close>.
\<close>

record entity =
  field :: string
  val :: ustring
  confidence :: string

datatype error = ValueError | IndexError | UnboundLocalError

text \<open>Labels: \<open>str.capitalize\<close>, \<open>str.replace('_', ' ')\<close> and \<open>str.title\<close> on the ASCII keys.\<close>

definition capitalize :: "ustring \<Rightarrow> ustring" where
  "capitalize s = (case s of [] \<Rightarrow> [] | c # cs \<Rightarrow> ascii_upper c # map ascii_lower cs)"

fun title_from :: "bool \<Rightarrow> ustring \<Rightarrow> ustring" where
  "title_from prev [] = []"
| "title_from prev (c # cs) =
     (if ascii_letter c
      then (if prev then ascii_lower c else ascii_upper c) # title_from True cs
      else c # title_from False cs)"

definition title :: "ustring \<Rightarrow> ustring" where
  "title s = title_from False s"

definition replace_underscores :: "ustring \<Rightarrow> ustring" where
  "replace_underscores s = map (\<lambda>c. if c = 95 then 32 else c) s"

subsection \<open>Keyword tables\<close>

definition loan_types :: "(string \<times> string list) list" where
  "loan_types =
     [(''personal'', [''personal loan'', ''personal'', ''individual loan'']),
      (''home'', [''home loan'', ''housing loan'', ''mortgage'', ''house loan'',
                  ''property loan'', ''purchase a home'', ''purchase a house'']),
      (''auto'', [''auto loan'', ''car loan'', ''vehicle loan'', ''automobile loan'']),
      (''business'', [''business loan'', ''commercial loan'', ''enterprise loan'',
                      ''business expansion'', ''expand my business'', ''new business'']),
      (''education'', [''education loan'', ''student loan'', ''study loan''])]"

definition purpose_keywords :: "(string \<times> string list) list" where
  "purpose_keywords =
     [(''home_purchase'', [''buy home'', ''purchase home'', ''buying house'', ''home purchase'',
                           ''buy a house'', ''purchase a home'', ''purchase a house'']),
      (''renovation'', [''renovation'', ''remodel'', ''home improvement'']),
      (''debt_consolidation'', [''debt consolidation'', ''consolidate debt'', ''pay off debts'']),
      (''business_expansion'', [''business expansion'', ''expand business'', ''grow business'']),
      (''education'', [''education'', ''study'', ''tuition'', ''college'', ''tuition fees'',
                       ''college fees'']),
      (''vehicle_purchase'', [''buy car'', ''purchase vehicle'', ''buying car'']),
      (''medical'', [''medical'', ''healthcare'', ''hospital'']),
      (''wedding'', [''wedding'', ''marriage''])]"

definition relationship_keywords :: "(string \<times> string list) list" where
  "relationship_keywords =
     [(''yes'', [''existing customer'', ''current customer'', ''already have account'',
                 ''have account'', ''yes'', ''i have account'', ''i have account in your bank'']),
      (''no'', [''no account'', ''new customer'', ''first time'', ''no relationship'', ''no'',
                [CHR ''i'', CHR '' '', CHR ''d'', CHR ''o'', CHR ''n'', CHR 0x27, CHR ''t'']
                  @ '' have account'',
                [CHR ''i'', CHR '' '', CHR ''d'', CHR ''o'', CHR ''n'', CHR 0x27, CHR ''t'']
                  @ '' have account in your bank''])]"

definition employed_keywords :: "string list" where
  "employed_keywords =
     [''employed'', ''working'', ''job'', ''work as'', ''working as'', ''employed as'',
      ''full time'', ''full-time'', ''part time'', ''part-time'', ''am a employee'',
      ''working professional'']"

definition self_employed_keywords :: "string list" where
  "self_employed_keywords =
     [''self-employed'', ''self employed'', ''business owner'', ''own business'',
      ''freelancer'', ''entrepreneur'']"

definition unemployed_keywords :: "string list" where
  "unemployed_keywords =
     [''unemployed'', ''not employed'', ''not working'', ''no job'', ''jobless'',
      ''am not employee'']"

subsection \<open>Patterns\<close>

text \<open>
  The building blocks of the numeric patterns: \<open>\s*\<close>, \<open>\d+\<close>, \<open>(?:,\d{3})*\<close>,
  \<open>\d+(?:\.\d+)?\<close>, a word with an optional final \<open>s\<close>, and \<open>rs\.?\<close>.
\<close>

definition spaces :: rx where
  "spaces = Star Space"

definition digits :: rx where
  "digits = Plus Digit"

definition comma_groups :: rx where
  "comma_groups = Star (Cat (Lit 44) (Rep 3 3 Digit))"

definition decimal_number :: rx where
  "decimal_number = Cat digits (Opt (Cat (Lit 46) digits))"

definition opt_s :: "string \<Rightarrow> rx" where
  "opt_s w = Cat (word w) (Opt (Lit 115))"

definition rs_dot :: rx where
  "rs_dot = Cat (word ''rs'') (Opt (Lit 46))"

definition amount_patterns :: "(rx \<times> string) list" where
  "amount_patterns =
     [(cats [Lit rupee, spaces, Grp (Cat (Rep 1 3 Digit) comma_groups)], ''direct''),
      (cats [Grp (Cat digits comma_groups), spaces,
             alts [opt_s ''rupee'', rs_dot, word ''inr'']], ''direct''),
      (cats [Grp decimal_number, spaces, alts [word ''k'', word ''thousand''], spaces,
             Opt (alts [opt_s ''rupee'', rs_dot])], ''thousand''),
      (cats [Grp decimal_number, spaces, alts [word ''lakh'', opt_s ''lakh'']], ''lakh''),
      (cats [Grp decimal_number, spaces, alts [word ''crore'', opt_s ''crore'']], ''crore'')]"

text \<open>
  Each income pattern of the source is the amount pattern of the same rank behind
  \<open>(?:salary|income|earn(?:ing)?|make)\s*(?:of|is|around|about)?\s*\<close>.
\<close>

definition income_lead :: rx where
  "income_lead =
     cats [alts [word ''salary'', word ''income'', Cat (word ''earn'') (Opt (word ''ing'')),
                 word ''make''],
           spaces,
           Opt (alts [word ''of'', word ''is'', word ''around'', word ''about'']),
           spaces]"

definition income_patterns :: "(rx \<times> string) list" where
  "income_patterns = map (\<lambda>(r, t). (Cat income_lead r, t)) amount_patterns"

definition years_word :: rx where
  "years_word = alts [opt_s ''year'', opt_s ''yr'']"

definition timeline_patterns :: "(rx \<times> string) list" where
  "timeline_patterns =
     [(cats [Grp digits, spaces, years_word], ''years''),
      (cats [Grp digits, spaces, alts [opt_s ''month'', opt_s ''mo'']], ''months''),
      (cats [Grp digits, spaces, word ''to'', spaces, Grp digits, spaces, years_word],
       ''years_range'')]"

subsection \<open>The six detectors\<close>

text \<open>
  The keyword loops of fields 1, 2 and 6. The inner loop appends the entity at the first
  keyword found in the text and breaks; the outer loop breaks as soon as \<open>entities\<close> holds an
  entity of the field.
\<close>

fun first_keyword :: "ustring \<Rightarrow> entity \<Rightarrow> string list \<Rightarrow> entity list \<Rightarrow> entity list" where
  "first_keyword text_lower e [] entities = entities"
| "first_keyword text_lower e (keyword # keywords) entities =
     (if contains (ustr keyword) text_lower then entities @ [e]
      else first_keyword text_lower e keywords entities)"

fun scan_table ::
  "ustring \<Rightarrow> string \<Rightarrow> (string \<Rightarrow> ustring) \<Rightarrow> string \<Rightarrow> (string \<times> string list) list \<Rightarrow>
   entity list \<Rightarrow> entity list" where
  "scan_table text_lower f label conf [] entities = entities"
| "scan_table text_lower f label conf ((key, keywords) # rest) entities =
     (let entities' =
            first_keyword text_lower \<lparr>field = f, val = label key, confidence = conf\<rparr>
              keywords entities
      in if list_ex (\<lambda>e. field e = f) entities' then entities'
         else scan_table text_lower f label conf rest entities')"

text \<open>
  \<open>match.group(n)\<close>, and the conversion to rupees. \<open>float\<close> is handed over as \<open>fl\<close>; a
  conversion type outside the four of the tables would leave \<open>amount\<close> unbound.
\<close>

definition group :: "ustring list \<Rightarrow> nat \<Rightarrow> error + ustring" where
  "group gs n = (if 1 \<le> n \<and> n \<le> length gs then Inr (gs ! (n - 1)) else Inl IndexError)"

definition scale_factor :: "string \<Rightarrow> nat option" where
  "scale_factor conversion_type =
     (if conversion_type = ''direct'' then Some 1
      else if conversion_type = ''thousand'' then Some 1000
      else if conversion_type = ''lakh'' then Some 100000
      else if conversion_type = ''crore'' then Some 10000000
      else None)"

definition to_rupees ::
  "(ustring \<Rightarrow> pyfloat option) \<Rightarrow> ustring \<Rightarrow> string \<Rightarrow> error + pyfloat" where
  "to_rupees fl amount_str conversion_type =
     (case scale_factor conversion_type of
        None \<Rightarrow> Inl UnboundLocalError
      | Some k \<Rightarrow>
          (case fl amount_str of
             None \<Rightarrow> Inl ValueError
           | Some x \<Rightarrow> Inr (if k = 1 then x else fmul x k)))"

text \<open>
  The loop over the amount patterns, and the identical loop over the income patterns: the
  first pattern that matches anywhere decides, and its first group, without the commas, is
  converted and formatted.
\<close>

fun first_money ::
  "(ustring \<Rightarrow> pyfloat option) \<Rightarrow> ucd \<Rightarrow> ustring \<Rightarrow> (rx \<times> string) list \<Rightarrow>
   error + ustring option" where
  "first_money fl u text_lower [] = Inr None"
| "first_money fl u text_lower ((pattern, conversion_type) # rest) =
     (case search u True pattern text_lower of
        None \<Rightarrow> first_money fl u text_lower rest
      | Some gs \<Rightarrow>
          (case group gs 1 of
             Inl e \<Rightarrow> Inl e
           | Inr g \<Rightarrow>
               (case to_rupees fl (filter (\<lambda>c. c \<noteq> 44) g) conversion_type of
                  Inl e \<Rightarrow> Inl e
                | Inr amount \<Rightarrow> Inr (Some (rupee # format_0f amount)))))"

text \<open>\<open>any(keyword in text_lower for keyword in keywords)\<close>.\<close>

fun any_keyword :: "string list \<Rightarrow> ustring \<Rightarrow> bool" where
  "any_keyword [] text_lower = False"
| "any_keyword (keyword # keywords) text_lower =
     (if contains (ustr keyword) text_lower then True else any_keyword keywords text_lower)"

definition employment_status :: "ustring \<Rightarrow> ustring option" where
  "employment_status text_lower =
     (if any_keyword self_employed_keywords text_lower then Some (ustr ''Self-Employed'')
      else if any_keyword unemployed_keywords text_lower then Some (ustr ''Unemployed'')
      else if any_keyword employed_keywords text_lower then Some (ustr ''Employed'')
      else None)"

text \<open>Truth of an optional string (\<open>None\<close> and the empty string are false), and \<open>str.join\<close>.\<close>

definition truthy :: "ustring option \<Rightarrow> bool" where
  "truthy x = (case x of None \<Rightarrow> False | Some s \<Rightarrow> s \<noteq> [])"

fun join :: "ustring \<Rightarrow> ustring list \<Rightarrow> ustring" where
  "join sep [] = []"
| "join sep [p] = p"
| "join sep (p # ps) = p @ sep @ join sep ps"

definition employment_text :: "ustring option \<Rightarrow> ustring option \<Rightarrow> ustring" where
  "employment_text status income_info =
     (let employment_text_parts =
            (case status of None \<Rightarrow> [] | Some s \<Rightarrow> if s \<noteq> [] then [s] else [])
            @ (case income_info of None \<Rightarrow> [] | Some i \<Rightarrow> if i \<noteq> [] then [i] else [])
      in if employment_text_parts \<noteq> [] then join (ustr '' | '') employment_text_parts
         else ustr ''Employed'')"

fun first_timeline :: "ucd \<Rightarrow> ustring \<Rightarrow> (rx \<times> string) list \<Rightarrow> error + ustring option" where
  "first_timeline u text_lower [] = Inr None"
| "first_timeline u text_lower ((pattern, timeline_type) # rest) =
     (case search u False pattern text_lower of
        None \<Rightarrow> first_timeline u text_lower rest
      | Some gs \<Rightarrow>
          (if timeline_type = ''years_range''
           then (case group gs 1 of
                   Inl e \<Rightarrow> Inl e
                 | Inr g1 \<Rightarrow>
                     (case group gs 2 of
                        Inl e \<Rightarrow> Inl e
                      | Inr g2 \<Rightarrow> Inr (Some (g1 @ ustr ''-'' @ g2 @ ustr '' years''))))
           else (case group gs 1 of
                   Inl e \<Rightarrow> Inl e
                 | Inr g1 \<Rightarrow> Inr (Some (g1 @ ustr '' '' @ ustr timeline_type)))))"

text \<open>Appending the entity of a field when its detector gave a value.\<close>

definition add_found :: "string \<Rightarrow> string \<Rightarrow> ustring option \<Rightarrow> entity list \<Rightarrow> entity list" where
  "add_found f conf found entities =
     (case found of
        None \<Rightarrow> entities
      | Some v \<Rightarrow> entities @ [\<lparr>field = f, val = v, confidence = conf\<rparr>])"

text \<open>
  \<open>extract_loan_entities\<close>, with \<open>float\<close> as a parameter: the six sections of the source in
  their order, an exception of a section ending the call. The \<open>print\<close> calls of the source
  write to the console and return nothing; they are left out here and stand in
  \<open>extract_loan_entities_io\<close> below.
\<close>

definition extract_with ::
  "(ustring \<Rightarrow> pyfloat option) \<Rightarrow> ucd \<Rightarrow> ustring \<Rightarrow> error + entity list" where
  "extract_with fl u text =
     (let text_lower = py_lower u text;
          entities = scan_table text_lower ''loan_type''
                       (\<lambda>loan_type. capitalize (ustr loan_type) @ ustr '' Loan'') ''high''
                       loan_types [];
          entities = scan_table text_lower ''loan_purpose''
                       (\<lambda>purpose. title (replace_underscores (ustr purpose))) ''high''
                       purpose_keywords entities
      in case first_money fl u text_lower amount_patterns of
           Inl e \<Rightarrow> Inl e
         | Inr amount \<Rightarrow>
             (let entities = add_found ''loan_amount'' ''high'' amount entities;
                  status = employment_status text_lower
              in case first_money fl u text_lower income_patterns of
                   Inl e \<Rightarrow> Inl e
                 | Inr income_info \<Rightarrow>
                     (let entities =
                            (if truthy status \<or> truthy income_info
                             then entities @ [\<lparr>field = ''employment_income'',
                                               val = employment_text status income_info,
                                               confidence = ''medium''\<rparr>]
                             else entities)
                      in case first_timeline u text_lower timeline_patterns of
                           Inl e \<Rightarrow> Inl e
                         | Inr timeline_value \<Rightarrow>
                             Inr (scan_table text_lower ''bank_relationship''
                                    (\<lambda>relationship. capitalize (ustr relationship)) ''medium''
                                    relationship_keywords
                                    (add_found ''repayment_timeline'' ''high'' timeline_value
                                       entities)))))"

definition extract_loan_entities :: "ucd \<Rightarrow> ustring \<Rightarrow> error + entity list" where
  "extract_loan_entities u text = extract_with (py_float u) u text"

text \<open>The transcript of the end-to-end scenario.\<close>

definition scenario_text :: ustring where
  "scenario_text = ustr (''I need a home loan of 10 lakh rupees for home purchase, ''
     @ ''I am self-employed earning 50k per month, for 5 years, ''
     @ ''and I have account in your bank'')"

subsection \<open>The call and the state of the process\<close>

text \<open>
  What a call can reach outside its argument: the module's global settings \<open>openai.api_key\<close>
  and \<open>UPLOAD_FOLDER\<close>, and the console, to which \<open>print\<close> writes. The console is the list
  of the lines written so far; \<open>print\<close> adds a line.
\<close>

record process =
  api_key :: ustring
  upload_folder :: ustring
  console :: "ustring list"

definition print_line :: "ustring \<Rightarrow> process \<Rightarrow> process" where
  "print_line s w = w\<lparr>console := console w @ [s]\<rparr>"

text \<open>Every line of the function starts with two blanks, a check mark (U+2713) and a blank.\<close>

definition tick :: ustring where
  "tick = [32, 32, 10003, 32]"

text \<open>
  The keyword loops again, now with their \<open>print\<close>: the line is written right after the entity
  is appended, before the \<open>break\<close>. The line is the heading followed by the value of the entity.
\<close>

fun first_keyword_io ::
  "ustring \<Rightarrow> entity \<Rightarrow> ustring \<Rightarrow> string list \<Rightarrow> entity list \<Rightarrow> process \<Rightarrow>
   entity list \<times> process" where
  "first_keyword_io text_lower e line [] entities w = (entities, w)"
| "first_keyword_io text_lower e line (keyword # keywords) entities w =
     (if contains (ustr keyword) text_lower then (entities @ [e], print_line line w)
      else first_keyword_io text_lower e line keywords entities w)"

fun scan_table_io ::
  "ustring \<Rightarrow> string \<Rightarrow> (string \<Rightarrow> ustring) \<Rightarrow> string \<Rightarrow> string \<Rightarrow>
   (string \<times> string list) list \<Rightarrow> entity list \<Rightarrow> process \<Rightarrow> entity list \<times> process" where
  "scan_table_io text_lower f label conf heading [] entities w = (entities, w)"
| "scan_table_io text_lower f label conf heading ((key, keywords) # rest) entities w =
     (case first_keyword_io text_lower \<lparr>field = f, val = label key, confidence = conf\<rparr>
             (tick @ ustr heading @ label key) keywords entities w of
        (entities', w') \<Rightarrow>
          if list_ex (\<lambda>e. field e = f) entities' then (entities', w')
          else scan_table_io text_lower f label conf heading rest entities' w')"

definition add_found_io ::
  "string \<Rightarrow> string \<Rightarrow> string \<Rightarrow> ustring option \<Rightarrow> entity list \<Rightarrow> process \<Rightarrow>
   entity list \<times> process" where
  "add_found_io f conf heading found entities w =
     (case found of
        None \<Rightarrow> (entities, w)
      | Some v \<Rightarrow> (entities @ [\<lparr>field = f, val = v, confidence = conf\<rparr>],
                   print_line (tick @ ustr heading @ v) w))"

text \<open>
  A call of \<open>extract_loan_entities\<close> in a process: the statements of the source in their order,
  each \<open>print\<close> included, the state handed from one statement to the next. An exception ends
  the call in the state reached; a call that returns has written its last line, the number of
  entities.
\<close>

definition extract_loan_entities_io ::
  "ucd \<Rightarrow> ustring \<Rightarrow> process \<Rightarrow> (error + entity list) \<times> process" where
  "extract_loan_entities_io u text w =
     (let text_lower = py_lower u text
      in case scan_table_io text_lower ''loan_type''
                (\<lambda>loan_type. capitalize (ustr loan_type) @ ustr '' Loan'') ''high''
                ''Found Loan Type: '' loan_types [] w of
      (entities, w) \<Rightarrow>
      case scan_table_io text_lower ''loan_purpose''
                (\<lambda>purpose. title (replace_underscores (ustr purpose))) ''high''
                ''Found Loan Purpose: '' purpose_keywords entities w of
      (entities, w) \<Rightarrow>
      case first_money (py_float u) u text_lower amount_patterns of
        Inl e \<Rightarrow> (Inl e, w)
      | Inr amount \<Rightarrow>
      case add_found_io ''loan_amount'' ''high'' ''Found Loan Amount: '' amount entities w of
      (entities, w) \<Rightarrow>
      let status = employment_status text_lower
      in case first_money (py_float u) u text_lower income_patterns of
        Inl e \<Rightarrow> (Inl e, w)
      | Inr income_info \<Rightarrow>
      case (if truthy status \<or> truthy income_info
            then (entities @ [\<lparr>field = ''employment_income'',
                               val = employment_text status income_info,
                               confidence = ''medium''\<rparr>],
                  print_line (tick @ ustr ''Found Employment/Income: ''
                                @ employment_text status income_info) w)
            else (entities, w)) of
      (entities, w) \<Rightarrow>
      case first_timeline u text_lower timeline_patterns of
        Inl e \<Rightarrow> (Inl e, w)
      | Inr timeline_value \<Rightarrow>
      case add_found_io ''repayment_timeline'' ''high'' ''Found Repayment Timeline: ''
             timeline_value entities w of
      (entities, w) \<Rightarrow>
      case scan_table_io text_lower ''bank_relationship''
             (\<lambda>relationship. capitalize (ustr relationship)) ''medium''
             ''Found Bank Relationship: '' relationship_keywords entities w of
      (entities, w) \<Rightarrow>
        (Inr entities,
         print_line (tick @ ustr ''Total entities extracted: '' @ decimal (length entities)) w))"

section \<open>Notions used in the proofs\<close>

text \<open>
  The language of a pattern: the words it can consume, whatever the order of the search.
\<close>

primrec lang :: "ucd \<Rightarrow> bool \<Rightarrow> rx \<Rightarrow> ustring set" where
  "lang u ic (Lit c) = {[x] |x. lit_match u ic c x}"
| "lang u ic Digit = {[x] |x. digit u x}"
| "lang u ic Space = {[x] |x. space u x}"
| "lang u ic (Cat r1 r2) = {v @ w |v w. v \<in> lang u ic r1 \<and> w \<in> lang u ic r2}"
| "lang u ic (Alt r1 r2) = lang u ic r1 \<union> lang u ic r2"
| "lang u ic (Star r) = {concat ws |ws. set ws \<subseteq> lang u ic r}"
| "lang u ic (Opt r) = insert [] (lang u ic r)"
| "lang u ic (Rep lo hi r) =
     {concat ws |ws. set ws \<subseteq> lang u ic r \<and> lo \<le> length ws \<and> length ws \<le> hi}"
| "lang u ic (Grp r) = lang u ic r"

text \<open>
  A pattern is straight when its groups stand in sequence at the top and hold no further
  groups, as in every pattern of the source; \<open>top_groups\<close> lists their bodies.
\<close>

primrec nogroups :: "rx \<Rightarrow> bool" where
  "nogroups (Lit c) = True"
| "nogroups Digit = True"
| "nogroups Space = True"
| "nogroups (Cat r1 r2) = (nogroups r1 \<and> nogroups r2)"
| "nogroups (Alt r1 r2) = (nogroups r1 \<and> nogroups r2)"
| "nogroups (Star r) = nogroups r"
| "nogroups (Opt r) = nogroups r"
| "nogroups (Rep lo hi r) = nogroups r"
| "nogroups (Grp r) = False"

primrec straight :: "rx \<Rightarrow> bool" where
  "straight (Lit c) = True"
| "straight Digit = True"
| "straight Space = True"
| "straight (Cat r1 r2) = (straight r1 \<and> straight r2)"
| "straight (Alt r1 r2) = (nogroups r1 \<and> nogroups r2)"
| "straight (Star r) = nogroups r"
| "straight (Opt r) = nogroups r"
| "straight (Rep lo hi r) = nogroups r"
| "straight (Grp r) = nogroups r"

primrec top_groups :: "rx \<Rightarrow> rx list" where
  "top_groups (Lit c) = []"
| "top_groups Digit = []"
| "top_groups Space = []"
| "top_groups (Cat r1 r2) = top_groups r1 @ top_groups r2"
| "top_groups (Alt r1 r2) = []"
| "top_groups (Star r) = []"
| "top_groups (Opt r) = []"
| "top_groups (Rep lo hi r) = []"
| "top_groups (Grp r) = [r]"

text \<open>
  The three numeral forms of the amount and income patterns, what makes a pattern of those
  tables well formed, and the same for the timeline table.
\<close>

definition numeral_bodies :: "rx set" where
  "numeral_bodies =
     {Cat (Rep 1 3 Digit) comma_groups, Cat digits comma_groups, decimal_number}"

definition money_pattern :: "rx \<times> string \<Rightarrow> bool" where
  "money_pattern pc =
     (straight (fst pc) \<and> (\<exists>b. top_groups (fst pc) = [b] \<and> b \<in> numeral_bodies)
      \<and> scale_factor (snd pc) \<noteq> None)"

definition timeline_pattern :: "rx \<times> string \<Rightarrow> bool" where
  "timeline_pattern pc =
     (straight (fst pc) \<and> 1 \<le> length (top_groups (fst pc))
      \<and> (snd pc = ''years_range'' \<longrightarrow> 2 \<le> length (top_groups (fst pc))))"

text \<open>
  The order of the fields in a result, and what one detector contributes: nothing, or one
  entity of its field with its confidence.
\<close>

definition field_order :: "string list" where
  "field_order =
     [''loan_type'', ''loan_purpose'', ''loan_amount'', ''employment_income'',
      ''repayment_timeline'', ''bank_relationship'']"

definition slot :: "string \<Rightarrow> string \<Rightarrow> entity list \<Rightarrow> bool" where
  "slot f conf xs = (xs = [] \<or> (\<exists>v. xs = [\<lparr>field = f, val = v, confidence = conf\<rparr>]))"

text \<open>The values a result gives for the field employment_income, in their order.\<close>

definition employment_values :: "entity list \<Rightarrow> ustring list" where
  "employment_values es = map val (filter (\<lambda>e. field e = ''employment_income'') es)"

text \<open>A process after some lines were written to its console.\<close>

definition printed :: "process \<Rightarrow> ustring list \<Rightarrow> process" where
  "printed w ls = w\<lparr>console := console w @ ls\<rparr>"

section \<open>Evaluation rules\<close>

lemma between_numeral:
  "between p lo (numeral k) st =
     concat (map (between p (lo - 1) (pred_numeral k)) (p st)) @ (if lo = 0 then [st] else [])"
  by (simp add: numeral_eq_Suc)

lemmas char_eval = ustr_def rupee_def fixed_char_def ascii_lower_def ascii_upper_def
  ascii_letter_def py_lower_def digit_def digit_value_def space_def lit_match_def

lemmas rx_eval = one_char_def Plus_def spaces_def digits_def comma_groups_def
  decimal_number_def opt_s_def rs_dot_def income_lead_def years_word_def between_numeral

lemmas table_eval = loan_types_def purpose_keywords_def relationship_keywords_def
  employed_keywords_def self_employed_keywords_def unemployed_keywords_def
  amount_patterns_def income_patterns_def timeline_patterns_def

lemmas float_eval = to_double_def leading_bit_def log2_floor.simps shift_up.simps
  round_half_even_def py_float_def digits_value_def format_0f_def decimal.simps

lemmas extract_eval = extract_loan_entities_def extract_with_def group_def scale_factor_def
  to_rupees_def employment_status_def truthy_def employment_text_def add_found_def
  capitalize_def title_def replace_underscores_def Let_def

lemmas eval_all = char_eval rx_eval table_eval float_eval extract_eval





section \<open>The keyword test is the substring test\<close>

lemma starts_with_prefix: "starts_with k t = prefix k t"
  by (induction k t rule: starts_with.induct) auto

lemma contains_sublist: "contains k t = sublist k t"
proof (induction t)
  case Nil
  show ?case by (cases k) auto
next
  case (Cons c cs)
  then show ?case by (auto simp: starts_with_prefix sublist_Cons_right)
qed


section \<open>What a match consumes and captures\<close>

lemma one_char_elem:
  "st' \<in> set (one_char p st) \<Longrightarrow> \<exists>x. fst st = x # fst st' \<and> p x \<and> snd st' = snd st"
  by (cases st; cases "fst st") (auto simp: one_char_def split: if_splits)

lemma many_elem:
  assumes step: "\<And>st st'. st' \<in> set (p st) \<Longrightarrow> \<exists>w. fst st = w @ fst st' \<and> w \<in> L \<and> snd st' = snd st"
  shows "st' \<in> set (many p n st) \<Longrightarrow>
         \<exists>ws. fst st = concat ws @ fst st' \<and> set ws \<subseteq> L \<and> snd st' = snd st"
proof (induction n arbitrary: st)
  case 0
  then have "st' = st" by simp
  then show ?case by (intro exI[of _ "[]"]) simp
next
  case (Suc n)
  from Suc.prems consider (stop) "st' = st"
    | (more) mid where "mid \<in> set (p st)" "st' \<in> set (many p n mid)"
    by auto
  then show ?case
  proof cases
    case stop
    then show ?thesis by (intro exI[of _ "[]"]) simp
  next
    case more
    from step[OF more(1)] obtain w where w: "fst st = w @ fst mid" "w \<in> L" "snd mid = snd st"
      by blast
    from Suc.IH[OF more(2)] obtain ws where
      ws: "fst mid = concat ws @ fst st'" "set ws \<subseteq> L" "snd st' = snd mid"
      by blast
    show ?thesis
      using w ws by (intro exI[of _ "w # ws"]) simp
  qed
qed

lemma between_elem:
  assumes step: "\<And>st st'. st' \<in> set (p st) \<Longrightarrow> \<exists>w. fst st = w @ fst st' \<and> w \<in> L \<and> snd st' = snd st"
  shows "st' \<in> set (between p lo hi st) \<Longrightarrow>
         \<exists>ws. fst st = concat ws @ fst st' \<and> set ws \<subseteq> L \<and> lo \<le> length ws \<and> length ws \<le> hi
              \<and> snd st' = snd st"
proof (induction hi arbitrary: st lo)
  case 0
  then have "st' = st" "lo = 0" by (auto split: if_splits)
  then show ?case by (intro exI[of _ "[]"]) simp
next
  case (Suc hi)
  from Suc.prems consider (stop) "st' = st" "lo = 0"
    | (more) mid where "mid \<in> set (p st)" "st' \<in> set (between p (lo - 1) hi mid)"
    by (auto split: if_splits)
  then show ?case
  proof cases
    case stop
    then show ?thesis by (intro exI[of _ "[]"]) simp
  next
    case more
    from step[OF more(1)] obtain w where w: "fst st = w @ fst mid" "w \<in> L" "snd mid = snd st"
      by blast
    from Suc.IH[OF more(2)] obtain ws where
      ws: "fst mid = concat ws @ fst st'" "set ws \<subseteq> L" "lo - 1 \<le> length ws" "length ws \<le> hi"
          "snd st' = snd mid"
      by blast
    show ?thesis
      using w ws by (intro exI[of _ "w # ws"]) auto
  qed
qed

text \<open>A pattern without groups consumes a word of its language and leaves the groups alone.\<close>

lemma run_nogroups:
  "nogroups r \<Longrightarrow> st' \<in> set (run u ic r st) \<Longrightarrow>
   \<exists>w. fst st = w @ fst st' \<and> w \<in> lang u ic r \<and> snd st' = snd st"
proof (induction r arbitrary: st st')
  case (Lit c)
  then show ?case by (auto dest!: one_char_elem)
next
  case Digit
  then show ?case by (auto dest!: one_char_elem)
next
  case Space
  then show ?case by (auto dest!: one_char_elem)
next
  case (Cat r1 r2)
  from Cat.prems obtain mid where mid: "mid \<in> set (run u ic r1 st)" "st' \<in> set (run u ic r2 mid)"
    by auto
  from Cat.IH(1)[OF _ mid(1)] Cat.prems(1) obtain v where
    v: "fst st = v @ fst mid" "v \<in> lang u ic r1" "snd mid = snd st" by auto
  from Cat.IH(2)[OF _ mid(2)] Cat.prems(1) obtain w where
    w: "fst mid = w @ fst st'" "w \<in> lang u ic r2" "snd st' = snd mid" by auto
  show ?case using v w by (intro exI[of _ "v @ w"]) auto
next
  case (Alt r1 r2)
  then show ?case by fastforce
next
  case (Star r)
  have step: "\<And>st st'. st' \<in> set (run u ic r st) \<Longrightarrow>
      \<exists>w. fst st = w @ fst st' \<and> w \<in> lang u ic r \<and> snd st' = snd st"
    using Star.IH Star.prems(1) by simp
  from Star.prems(2) have "st' \<in> set (many (run u ic r) (length (fst st)) st)" by simp
  from many_elem[of "run u ic r" "lang u ic r", OF step this] show ?case by auto
next
  case (Opt r)
  from Opt.prems(2) consider "st' \<in> set (run u ic r st)" | "st' = st" by auto
  then show ?case
  proof cases
    case 1
    with Opt.IH Opt.prems(1) show ?thesis by fastforce
  next
    case 2
    then show ?thesis by simp
  qed
next
  case (Rep lo hi r)
  have step: "\<And>st st'. st' \<in> set (run u ic r st) \<Longrightarrow>
      \<exists>w. fst st = w @ fst st' \<and> w \<in> lang u ic r \<and> snd st' = snd st"
    using Rep.IH Rep.prems(1) by simp
  from Rep.prems(2) have "st' \<in> set (between (run u ic r) lo hi st)" by simp
  from between_elem[of "run u ic r" "lang u ic r", OF step this] show ?case by auto
next
  case (Grp r)
  then show ?case by simp
qed


lemma run_straight:
  "straight r \<Longrightarrow> st' \<in> set (run u ic r st) \<Longrightarrow>
   \<exists>w gs. fst st = w @ fst st' \<and> snd st' = snd st @ gs
          \<and> list_all2 (\<lambda>g b. g \<in> lang u ic b) gs (top_groups r)"
proof (induction r arbitrary: st st')
  case (Cat r1 r2)
  from Cat.prems obtain mid where mid: "mid \<in> set (run u ic r1 st)" "st' \<in> set (run u ic r2 mid)"
    by auto
  from Cat.IH(1)[OF _ mid(1)] Cat.prems(1) obtain v gs1 where
    v: "fst st = v @ fst mid" "snd mid = snd st @ gs1"
       "list_all2 (\<lambda>g b. g \<in> lang u ic b) gs1 (top_groups r1)" by auto
  from Cat.IH(2)[OF _ mid(2)] Cat.prems(1) obtain w gs2 where
    w: "fst mid = w @ fst st'" "snd st' = snd mid @ gs2"
       "list_all2 (\<lambda>g b. g \<in> lang u ic b) gs2 (top_groups r2)" by auto
  show ?case
    using v w by (intro exI[of _ "v @ w"] exI[of _ "gs1 @ gs2"]) (simp add: list_all2_appendI)
next
  case (Grp r)
  from Grp.prems(2) obtain mid where mid: "mid \<in> set (run u ic r st)"
    "st' = (fst mid, snd mid @ [take (length (fst st) - length (fst mid)) (fst st)])"
    by auto
  from run_nogroups[OF _ mid(1)] Grp.prems(1) obtain w where
    w: "fst st = w @ fst mid" "w \<in> lang u ic r" "snd mid = snd st" by auto
  show ?case
    using w mid(2) by (intro exI[of _ w] exI[of _ "[w]"]) simp
next
  case (Lit c)
  from run_nogroups[OF _ Lit.prems(2)] show ?case by auto
next
  case Digit
  from run_nogroups[OF _ Digit.prems(2)] show ?case by auto
next
  case Space
  from run_nogroups[OF _ Space.prems(2)] show ?case by auto
next
  case (Alt r1 r2)
  from run_nogroups[OF _ Alt.prems(2)] Alt.prems(1) show ?case by auto
next
  case (Star r)
  from run_nogroups[OF _ Star.prems(2)] Star.prems(1) show ?case by auto
next
  case (Opt r)
  from run_nogroups[OF _ Opt.prems(2)] Opt.prems(1) show ?case by auto
next
  case (Rep lo hi r)
  from run_nogroups[OF _ Rep.prems(2)] Rep.prems(1) show ?case by auto
qed

lemma search_elem:
  "search u ic r t = Some gs \<Longrightarrow> \<exists>s st'. st' \<in> set (run u ic r (s, [])) \<and> snd st' = gs"
proof (induction t)
  case Nil
  then obtain st rest where st: "run u ic r ([], []) = st # rest" "snd st = gs"
    by (auto split: list.splits)
  then have "st \<in> set (run u ic r ([], []))" by simp
  with st(2) show ?case by blast
next
  case (Cons c cs)
  show ?case
  proof (cases "run u ic r (c # cs, [])")
    case Nil
    with Cons show ?thesis by simp
  next
    case (Cons st rest)
    with Cons.prems have "snd st = gs" by simp
    moreover from Cons have "st \<in> set (run u ic r (c # cs, []))" by simp
    ultimately show ?thesis by blast
  qed
qed

lemma search_groups:
  assumes "straight r" "search u ic r t = Some gs"
  shows "list_all2 (\<lambda>g b. g \<in> lang u ic b) gs (top_groups r)"
proof -
  from search_elem[OF assms(2)] obtain s st' where
    st': "st' \<in> set (run u ic r (s, []))" "snd st' = gs" by blast
  from run_straight[OF assms(1) st'(1)] st'(2) show ?thesis by auto
qed

section \<open>The numerals always parse\<close>

text \<open>The numerals.\<close>

lemma lit_match_44: "lit_match u ic 44 x \<Longrightarrow> x = 44"
  by (simp add: lit_match_def ascii_letter_def)

lemma lit_match_46: "lit_match u ic 46 x \<Longrightarrow> x = 46"
  by (simp add: lit_match_def ascii_letter_def)

lemma digit_not_punct: "digit u c \<Longrightarrow> c \<noteq> 44 \<and> c \<noteq> 46"
  by (auto simp: digit_def fixed_char_def)

lemma lang_LitE: "w \<in> lang u ic (Lit c) \<Longrightarrow> \<exists>x. w = [x] \<and> lit_match u ic c x"
  by auto

lemma lang_CatE:
  "w \<in> lang u ic (Cat r1 r2) \<Longrightarrow> \<exists>v x. w = v @ x \<and> v \<in> lang u ic r1 \<and> x \<in> lang u ic r2"
  by auto

lemma lang_StarE: "w \<in> lang u ic (Star r) \<Longrightarrow> \<exists>ws. w = concat ws \<and> set ws \<subseteq> lang u ic r"
  by auto

lemma lang_OptE: "w \<in> lang u ic (Opt r) \<Longrightarrow> w = [] \<or> w \<in> lang u ic r"
  by auto

lemma lang_RepE:
  "w \<in> lang u ic (Rep lo hi r) \<Longrightarrow>
   \<exists>ws. w = concat ws \<and> set ws \<subseteq> lang u ic r \<and> lo \<le> length ws \<and> length ws \<le> hi"
  by auto

lemma concat_all: "(\<And>x. x \<in> set ws \<Longrightarrow> list_all P x) \<Longrightarrow> list_all P (concat ws)"
  by (induction ws) auto

lemma lang_Digit_all: "x \<in> lang u ic Digit \<Longrightarrow> list_all (digit u) x \<and> x \<noteq> []"
  by auto

lemma lang_star_digit:
  assumes "w \<in> lang u ic (Star Digit)"
  shows "list_all (digit u) w"
proof -
  from lang_StarE[OF assms] obtain ws where ws: "w = concat ws" "set ws \<subseteq> lang u ic Digit"
    by blast
  have "list_all (digit u) x" if "x \<in> set ws" for x
    using that ws(2) lang_Digit_all by blast
  with ws(1) show ?thesis by (simp add: concat_all)
qed

lemma lang_digits:
  assumes "w \<in> lang u ic digits"
  shows "w \<noteq> [] \<and> list_all (digit u) w"
proof -
  from assms have "w \<in> lang u ic (Cat Digit (Star Digit))" by (simp only: digits_def Plus_def)
  from lang_CatE[OF this] obtain v x where
    w: "w = v @ x" "v \<in> lang u ic Digit" "x \<in> lang u ic (Star Digit)" by blast
  from lang_Digit_all[OF w(2)] lang_star_digit[OF w(3)] w(1) show ?thesis by simp
qed

lemma lang_rep_digit:
  assumes "w \<in> lang u ic (Rep lo hi Digit)"
  shows "list_all (digit u) w" and "0 < lo \<Longrightarrow> w \<noteq> []"
proof -
  from lang_RepE[OF assms] obtain ws where
    ws: "w = concat ws" "set ws \<subseteq> lang u ic Digit" "lo \<le> length ws" by blast
  have each: "list_all (digit u) x \<and> x \<noteq> []" if "x \<in> set ws" for x
    using that ws(2) lang_Digit_all by blast
  with ws(1) show "list_all (digit u) w" by (simp add: concat_all)
  assume "0 < lo"
  with ws(3) obtain a rest where "ws = a # rest" by (cases ws) auto
  with ws(1) each[of a] show "w \<noteq> []" by simp
qed

lemma lang_comma_groups:
  assumes "w \<in> lang u ic comma_groups"
  shows "list_all (\<lambda>c. digit u c \<or> c = 44) w"
proof -
  from assms have "w \<in> lang u ic (Star (Cat (Lit 44) (Rep 3 3 Digit)))"
    by (simp only: comma_groups_def)
  from lang_StarE[OF this] obtain ws where
    ws: "w = concat ws" "set ws \<subseteq> lang u ic (Cat (Lit 44) (Rep 3 3 Digit))" by blast
  have "list_all (\<lambda>c. digit u c \<or> c = 44) x" if "x \<in> set ws" for x
  proof -
    from that ws(2) have "x \<in> lang u ic (Cat (Lit 44) (Rep 3 3 Digit))" by blast
    from lang_CatE[OF this] obtain v d where
      x: "x = v @ d" "v \<in> lang u ic (Lit 44)" "d \<in> lang u ic (Rep 3 3 Digit)" by blast
    from lang_LitE[OF x(2)] obtain c where c: "v = [c]" "lit_match u ic 44 c" by blast
    from lang_rep_digit(1)[OF x(3)] have "list_all (\<lambda>c. digit u c \<or> c = 44) d"
      by (auto simp: list_all_iff)
    with lit_match_44[OF c(2)] c(1) x(1) show ?thesis by simp
  qed
  with ws(1) show ?thesis by (simp add: concat_all)
qed

lemma py_float_digits:
  assumes "ds \<noteq> []" "list_all (digit u) ds"
  shows "py_float u ds \<noteq> None"
proof -
  from assms(2) have no: "\<forall>c\<in>set ds. c \<noteq> 46"
    by (auto simp: list_all_iff dest: digit_not_punct)
  have tw: "takeWhile (\<lambda>c. c \<noteq> 46) ds = ds" using no by (simp add: takeWhile_eq_all_conv)
  have dw: "dropWhile (\<lambda>c. c \<noteq> 46) ds = []" using no by simp
  show ?thesis unfolding py_float_def Let_def tw dw using assms by simp
qed

lemma py_float_point:
  assumes "a \<noteq> []" "list_all (digit u) a" "list_all (digit u) b"
  shows "py_float u (a @ 46 # b) \<noteq> None"
proof -
  from assms(2) have no: "\<And>c. c \<in> set a \<Longrightarrow> c \<noteq> 46"
    by (auto simp: list_all_iff dest: digit_not_punct)
  have tw: "takeWhile (\<lambda>c. c \<noteq> 46) (a @ 46 # b) = a"
    using no by (simp add: takeWhile_append2)
  have dw: "dropWhile (\<lambda>c. c \<noteq> 46) (a @ 46 # b) = 46 # b"
    using no by (simp add: dropWhile_append2)
  show ?thesis unfolding py_float_def Let_def tw dw using assms by simp
qed

lemma filter_digits: "list_all (digit u) a \<Longrightarrow> filter (\<lambda>c. c \<noteq> 44) a = a"
  by (auto simp: list_all_iff filter_id_conv dest: digit_not_punct)

lemma grouped_numeral:
  assumes "a \<noteq> []" "list_all (digit u) a" "list_all (\<lambda>c. digit u c \<or> c = 44) b"
  shows "py_float u (filter (\<lambda>c. c \<noteq> 44) (a @ b)) \<noteq> None"
proof -
  from assms(3) have "list_all (digit u) (filter (\<lambda>c. c \<noteq> 44) b)"
    by (auto simp: list_all_iff)
  with assms(1,2) have "py_float u (a @ filter (\<lambda>c. c \<noteq> 44) b) \<noteq> None"
    by (intro py_float_digits) auto
  with filter_digits[OF assms(2)] show ?thesis by simp
qed

lemma numeral_body_parses:
  assumes "b \<in> numeral_bodies" "g \<in> lang u ic b"
  shows "py_float u (filter (\<lambda>c. c \<noteq> 44) g) \<noteq> None"
proof -
  from assms(1) consider "b = Cat (Rep 1 3 Digit) comma_groups" | "b = Cat digits comma_groups"
    | "b = decimal_number" by (auto simp: numeral_bodies_def)
  then show ?thesis
  proof cases
    case 1
    with assms(2) have "g \<in> lang u ic (Cat (Rep 1 3 Digit) comma_groups)" by simp
    from lang_CatE[OF this] obtain v w where g: "g = v @ w" "v \<in> lang u ic (Rep 1 3 Digit)"
      "w \<in> lang u ic comma_groups" by blast
    from lang_rep_digit[OF g(2)] lang_comma_groups[OF g(3)] show ?thesis
      unfolding g(1) by (intro grouped_numeral) auto
  next
    case 2
    with assms(2) have "g \<in> lang u ic (Cat digits comma_groups)" by simp
    from lang_CatE[OF this] obtain v w where g: "g = v @ w" "v \<in> lang u ic digits"
      "w \<in> lang u ic comma_groups" by blast
    from lang_digits[OF g(2)] lang_comma_groups[OF g(3)] show ?thesis
      unfolding g(1) by (intro grouped_numeral) auto
  next
    case 3
    with assms(2) have "g \<in> lang u ic (Cat digits (Opt (Cat (Lit 46) digits)))"
      by (simp only: decimal_number_def)
    from lang_CatE[OF this] obtain v w where g: "g = v @ w" "v \<in> lang u ic digits"
      "w \<in> lang u ic (Opt (Cat (Lit 46) digits))" by blast
    from lang_digits[OF g(2)] have v: "v \<noteq> []" "list_all (digit u) v" by auto
    from lang_OptE[OF g(3)] show ?thesis
    proof
      assume "w = []"
      with v filter_digits[OF v(2)] show ?thesis unfolding g(1) by (simp add: py_float_digits)
    next
      assume "w \<in> lang u ic (Cat (Lit 46) digits)"
      from lang_CatE[OF this] obtain p d where
        w: "w = p @ d" "p \<in> lang u ic (Lit 46)" "d \<in> lang u ic digits" by blast
      from lang_LitE[OF w(2)] obtain c where c: "p = [c]" "lit_match u ic 46 c" by blast
      from lang_digits[OF w(3)] have d: "list_all (digit u) d" by auto
      from c lit_match_46[OF c(2)] w(1) v d filter_digits[OF v(2)] filter_digits[OF d]
      show ?thesis unfolding g(1) by (simp add: py_float_point)
    qed
  qed
qed

lemma straight_word: "nogroups (word w)"
  by (induction w rule: word.induct) auto

lemma amount_patterns_ok: "list_all money_pattern amount_patterns"
  by (simp add: amount_patterns_def money_pattern_def numeral_bodies_def scale_factor_def
      spaces_def opt_s_def rs_dot_def straight_word digits_def Plus_def comma_groups_def
      decimal_number_def)

lemma income_patterns_ok: "list_all money_pattern income_patterns"
  by (simp add: income_patterns_def amount_patterns_def money_pattern_def numeral_bodies_def
      scale_factor_def income_lead_def
      spaces_def opt_s_def rs_dot_def straight_word digits_def Plus_def comma_groups_def
      decimal_number_def)

lemma timeline_patterns_ok: "list_all timeline_pattern timeline_patterns"
  by (simp add: timeline_patterns_def timeline_pattern_def years_word_def
      spaces_def opt_s_def straight_word digits_def Plus_def)

lemma first_money_total:
  "list_all money_pattern pats \<Longrightarrow> \<exists>r. first_money (py_float u) u t pats = Inr r"
proof (induction pats)
  case Nil
  show ?case by simp
next
  case (Cons pc pats)
  obtain p ct where pc: "pc = (p, ct)" by (cases pc)
  from Cons.prems pc have ok: "straight p" "scale_factor ct \<noteq> None"
    and "\<exists>b. top_groups p = [b] \<and> b \<in> numeral_bodies"
    by (auto simp: money_pattern_def)
  then obtain b where b: "top_groups p = [b]" "b \<in> numeral_bodies" by blast
  show ?case
  proof (cases "search u True p t")
    case None
    with Cons pc show ?thesis by simp
  next
    case (Some gs)
    from search_groups[OF ok(1) Some] b(1) obtain g where g: "gs = [g]" "g \<in> lang u True b"
      by (auto simp: list_all2_Cons2)
    from numeral_body_parses[OF b(2) g(2)] obtain x where
      "py_float u (filter (\<lambda>c. c \<noteq> 44) g) = Some x" by auto
    with Some g(1) ok(2) pc show ?thesis
      by (auto simp: group_def to_rupees_def)
  qed
qed

lemma first_timeline_total:
  "list_all timeline_pattern pats \<Longrightarrow> \<exists>r. first_timeline u t pats = Inr r"
proof (induction pats)
  case Nil
  show ?case by simp
next
  case (Cons pc pats)
  obtain p ty where pc: "pc = (p, ty)" by (cases pc)
  from Cons.prems pc have ok: "straight p" "1 \<le> length (top_groups p)"
    "ty = ''years_range'' \<Longrightarrow> 2 \<le> length (top_groups p)"
    by (auto simp: timeline_pattern_def)
  show ?case
  proof (cases "search u False p t")
    case None
    with Cons pc show ?thesis by simp
  next
    case (Some gs)
    from search_groups[OF ok(1) Some] have "length gs = length (top_groups p)"
      by (rule list_all2_lengthD)
    with ok(2,3) Some pc show ?thesis
      by (auto simp: group_def)
  qed
qed

lemma extract_total: "\<exists>es. extract_loan_entities u t = Inr es"
proof -
  obtain a where a: "first_money (py_float u) u (py_lower u t) amount_patterns = Inr a"
    using first_money_total[OF amount_patterns_ok] by blast
  obtain i where i: "first_money (py_float u) u (py_lower u t) income_patterns = Inr i"
    using first_money_total[OF income_patterns_ok] by blast
  obtain tv where tv: "first_timeline u (py_lower u t) timeline_patterns = Inr tv"
    using first_timeline_total[OF timeline_patterns_ok] by blast
  show ?thesis
    by (simp add: extract_loan_entities_def extract_with_def Let_def a i tv)
qed


section \<open>The shape of a result\<close>

lemma first_keyword_cases:
  "first_keyword low e kws ents = ents \<or> first_keyword low e kws ents = ents @ [e]"
  by (induction kws) auto

lemma scan_table_slot:
  "\<exists>xs. scan_table low f label conf tab ents = ents @ xs \<and> slot f conf xs"
proof (induction tab arbitrary: ents)
  case Nil
  show ?case by (simp add: slot_def)
next
  case (Cons kv tab)
  obtain key kws where kv: "kv = (key, kws)" by (cases kv)
  let ?e = "\<lparr>field = f, val = label key, confidence = conf\<rparr>"
  from first_keyword_cases[of low "?e" kws ents]
  show ?case
  proof
    assume same: "first_keyword low ?e kws ents = ents"
    show ?thesis
    proof (cases "list_ex (\<lambda>e. field e = f) ents")
      case True
      with same kv show ?thesis by (simp add: slot_def)
    next
      case False
      with same kv Cons.IH[of ents] show ?thesis by simp
    qed
  next
    assume app: "first_keyword low ?e kws ents = ents @ [?e]"
    with kv show ?thesis by (auto simp: slot_def)
  qed
qed

lemma add_found_slot: "\<exists>xs. add_found f conf found ents = ents @ xs \<and> slot f conf xs"
  by (cases found) (auto simp: add_found_def slot_def)

lemma extract_with_shape:
  assumes "extract_with fl u t = Inr es"
  shows "\<exists>x1 x2 x3 x4 x5 x6. es = x1 @ x2 @ x3 @ x4 @ x5 @ x6
           \<and> slot ''loan_type'' ''high'' x1 \<and> slot ''loan_purpose'' ''high'' x2
           \<and> slot ''loan_amount'' ''high'' x3 \<and> slot ''employment_income'' ''medium'' x4
           \<and> slot ''repayment_timeline'' ''high'' x5 \<and> slot ''bank_relationship'' ''medium'' x6"
proof -
  define low where "low = py_lower u t"
  define l1 where "l1 = (\<lambda>loan_type. capitalize (ustr loan_type) @ ustr '' Loan'')"
  define l2 where "l2 = (\<lambda>purpose. title (replace_underscores (ustr purpose)))"
  define l6 where "l6 = (\<lambda>relationship. capitalize (ustr relationship))"
  obtain x1 where x1: "scan_table low ''loan_type'' l1 ''high'' loan_types [] = [] @ x1"
    "slot ''loan_type'' ''high'' x1"
    using scan_table_slot by blast
  obtain x2 where x2: "scan_table low ''loan_purpose'' l2 ''high'' purpose_keywords x1 = x1 @ x2"
    "slot ''loan_purpose'' ''high'' x2"
    using scan_table_slot by blast
  from assms obtain amount income_info timeline_value where
    a: "first_money fl u low amount_patterns = Inr amount" and
    i: "first_money fl u low income_patterns = Inr income_info" and
    t: "first_timeline u low timeline_patterns = Inr timeline_value"
    by (auto simp: extract_with_def Let_def low_def split: sum.splits)
  obtain x3 where x3: "add_found ''loan_amount'' ''high'' amount (x1 @ x2) = (x1 @ x2) @ x3"
    "slot ''loan_amount'' ''high'' x3"
    using add_found_slot by blast
  define x4 where "x4 = (if truthy (employment_status low) \<or> truthy income_info
     then [\<lparr>field = ''employment_income'', val = employment_text (employment_status low) income_info,
            confidence = ''medium''\<rparr>] else [])"
  have x4: "slot ''employment_income'' ''medium'' x4" by (simp add: x4_def slot_def)
  obtain x5 where x5: "add_found ''repayment_timeline'' ''high'' timeline_value (x1 @ x2 @ x3 @ x4)
       = (x1 @ x2 @ x3 @ x4) @ x5" "slot ''repayment_timeline'' ''high'' x5"
    using add_found_slot by blast
  obtain x6 where x6: "scan_table low ''bank_relationship'' l6 ''medium'' relationship_keywords
       (x1 @ x2 @ x3 @ x4 @ x5) = (x1 @ x2 @ x3 @ x4 @ x5) @ x6"
    "slot ''bank_relationship'' ''medium'' x6"
    using scan_table_slot by blast
  have "extract_with fl u t = Inr (x1 @ x2 @ x3 @ x4 @ x5 @ x6)"
    using x1(1) x2(1) a i t x3(1) x5(1) x6(1)
    by (cases "truthy (employment_status low) \<or> truthy income_info")
       (simp_all add: extract_with_def Let_def low_def[symmetric] l1_def[symmetric]
          l2_def[symmetric] l6_def[symmetric] x4_def del: disj_not1 de_Morgan_disj)
  with assms have "es = x1 @ x2 @ x3 @ x4 @ x5 @ x6" by simp
  with x1(2) x2(2) x3(2) x4 x5(2) x6(2) show ?thesis by blast
qed

lemma slot_subseq: "slot f conf xs \<Longrightarrow> subseq (map field xs) [f]"
  by (auto simp: slot_def)

lemma slot_conf: "slot f conf xs \<Longrightarrow> list_all (\<lambda>e. field e = f \<and> confidence e = conf) xs"
  by (auto simp: slot_def)

lemma shape_subseq:
  assumes "extract_with fl u t = Inr es"
  shows "subseq (map field es) field_order"
proof -
  from extract_with_shape[OF assms] obtain x1 x2 x3 x4 x5 x6 where
    es: "es = x1 @ x2 @ x3 @ x4 @ x5 @ x6" and
    s: "slot ''loan_type'' ''high'' x1" "slot ''loan_purpose'' ''high'' x2"
       "slot ''loan_amount'' ''high'' x3" "slot ''employment_income'' ''medium'' x4"
       "slot ''repayment_timeline'' ''high'' x5" "slot ''bank_relationship'' ''medium'' x6"
    by blast
  have "subseq (map field x1 @ map field x2 @ map field x3 @ map field x4 @ map field x5 @ map field x6)
     ([''loan_type''] @ [''loan_purpose''] @ [''loan_amount''] @ [''employment_income'']
       @ [''repayment_timeline''] @ [''bank_relationship''])"
    by (intro list_emb_append_mono slot_subseq[OF s(1)] slot_subseq[OF s(2)] slot_subseq[OF s(3)]
        slot_subseq[OF s(4)] slot_subseq[OF s(5)] slot_subseq[OF s(6)])
  then show ?thesis by (simp add: es field_order_def)
qed

lemma shape_confidence:
  assumes "extract_with fl u t = Inr es"
  shows "list_all (\<lambda>e. (field e \<in> {''loan_type'', ''loan_purpose'', ''loan_amount'', ''repayment_timeline''}
                        \<and> confidence e = ''high'')
                     \<or> (field e \<in> {''employment_income'', ''bank_relationship''}
                        \<and> confidence e = ''medium'')) es"
proof -
  from extract_with_shape[OF assms] obtain x1 x2 x3 x4 x5 x6 where
    es: "es = x1 @ x2 @ x3 @ x4 @ x5 @ x6" and
    s: "slot ''loan_type'' ''high'' x1" "slot ''loan_purpose'' ''high'' x2"
       "slot ''loan_amount'' ''high'' x3" "slot ''employment_income'' ''medium'' x4"
       "slot ''repayment_timeline'' ''high'' x5" "slot ''bank_relationship'' ''medium'' x6"
    by blast
  show ?thesis
    unfolding es list_all_append
    by (intro conjI list.pred_mono_strong[OF slot_conf[OF s(1)]]
        list.pred_mono_strong[OF slot_conf[OF s(2)]] list.pred_mono_strong[OF slot_conf[OF s(3)]]
        list.pred_mono_strong[OF slot_conf[OF s(4)]] list.pred_mono_strong[OF slot_conf[OF s(5)]]
        list.pred_mono_strong[OF slot_conf[OF s(6)]]) simp_all
qed


lemma subseq_distinct:
  assumes "subseq xs ys" "distinct ys"
  shows "distinct xs"
  using assms by (induction rule: list_emb.induct) (auto dest: list_emb_set)

section \<open>Timeline precedence\<close>

text \<open>The text a pattern consumes does not depend on the groups captured before.\<close>

lemma concat_map_fst:
  assumes "\<And>s c c'. map fst (f (s, c)) = map fst (f (s, c'))"
  shows "map fst xs = map fst ys \<Longrightarrow> map fst (concat (map f xs)) = map fst (concat (map f ys))"
proof (induction xs arbitrary: ys)
  case Nil
  then show ?case by simp
next
  case (Cons x xs)
  then obtain y ys' where ys: "ys = y # ys'" "fst x = fst y" "map fst xs = map fst ys'"
    by (cases ys) auto
  from assms[of "fst x" "snd x" "snd y"] ys(2) have "map fst (f x) = map fst (f y)"
    by (metis prod.collapse)
  with Cons.IH[OF ys(3)] ys(1) show ?case by simp
qed

lemma filter_map_fst:
  "map fst xs = map fst ys \<Longrightarrow>
   map fst (filter (\<lambda>st. P (fst st)) xs) = map fst (filter (\<lambda>st. P (fst st)) ys)"
proof (induction xs arbitrary: ys)
  case Nil
  then show ?case by simp
next
  case (Cons x xs)
  then obtain y ys' where "ys = y # ys'" "fst x = fst y" "map fst xs = map fst ys'"
    by (cases ys) auto
  with Cons.IH[of ys'] show ?case by simp
qed

lemma many_fst:
  assumes "\<And>s c c'. map fst (p (s, c)) = map fst (p (s, c'))"
  shows "map fst (many p n (s, c)) = map fst (many p n (s, c'))"
proof (induction n arbitrary: s c c')
  case 0
  show ?case by simp
next
  case (Suc n)
  have "map fst (filter (\<lambda>st. length (fst st) < length s) (p (s, c)))
      = map fst (filter (\<lambda>st. length (fst st) < length s) (p (s, c')))"
    by (rule filter_map_fst) (rule assms)
  from concat_map_fst[of "many p n", OF Suc.IH this] show ?case by simp
qed

lemma between_fst:
  assumes "\<And>s c c'. map fst (p (s, c)) = map fst (p (s, c'))"
  shows "map fst (between p lo hi (s, c)) = map fst (between p lo hi (s, c'))"
proof (induction hi arbitrary: lo s c c')
  case 0
  show ?case by simp
next
  case (Suc hi)
  from concat_map_fst[of "between p (lo - 1) hi", OF Suc.IH assms] show ?case by simp
qed

lemma run_fst: "map fst (run u ic r (s, c)) = map fst (run u ic r (s, c'))"
proof (induction r arbitrary: s c c')
  case (Cat r1 r2)
  from concat_map_fst[of "run u ic r2", OF Cat.IH(2) Cat.IH(1)] show ?case by simp
next
  case (Star r)
  from many_fst[of "run u ic r", OF Star.IH] show ?case by simp
next
  case (Rep lo hi r)
  from between_fst[of "run u ic r", OF Rep.IH] show ?case by simp
next
  case (Grp r)
  from Grp.IH[of s c c'] show ?case by (simp add: comp_def)
next
  case (Alt r1 r2)
  from Alt.IH(1)[of s c c'] Alt.IH(2)[of s c c'] show ?case by simp
next
  case (Opt r)
  from Opt.IH[of s c c'] show ?case by simp
qed (simp_all add: one_char_def split: list.splits)

lemma run_some_groups:
  "run u ic r (s, c) \<noteq> [] \<Longrightarrow> run u ic r (s, c') \<noteq> []"
  using run_fst[of u ic r s c c'] by (metis map_is_Nil_conv)

lemma search_None:
  "search u ic r t = None \<Longrightarrow> suffix s t \<Longrightarrow> run u ic r (s, []) = []"
proof (induction t)
  case Nil
  then show ?case by (auto split: list.splits)
next
  case (Cons x xs)
  from Cons.prems(1) have here: "run u ic r (x # xs, []) = []" and rest: "search u ic r xs = None"
    by (auto split: list.splits)
  from Cons.prems(2) consider "s = x # xs" | "suffix s xs" by (auto simp: suffix_Cons)
  then show ?case using here Cons.IH[OF rest] by cases auto
qed

lemma search_Some_at:
  "search u ic r t = Some gs \<Longrightarrow>
   \<exists>s st'. suffix s t \<and> st' \<in> set (run u ic r (s, [])) \<and> snd st' = gs"
proof (induction t)
  case Nil
  then obtain st rest where st: "run u ic r ([], []) = st # rest" "snd st = gs"
    by (auto split: list.splits)
  then have "st \<in> set (run u ic r ([], []))" by simp
  with st(2) show ?case by (intro exI[of _ "[]"] exI[of _ st]) simp
next
  case (Cons x xs)
  show ?case
  proof (cases "run u ic r (x # xs, [])")
    case Nil
    with Cons.prems have "search u ic r xs = Some gs" by simp
    from Cons.IH[OF this] obtain s st' where
      "suffix s xs" "st' \<in> set (run u ic r (s, []))" "snd st' = gs" by blast
    then show ?thesis by (intro exI[of _ s] exI[of _ st']) (simp add: suffix_Cons)
  next
    case (Cons st rest)
    with Cons.prems have "snd st = gs" by simp
    moreover from Cons have "st \<in> set (run u ic r (x # xs, []))" by simp
    ultimately show ?thesis by (intro exI[of _ "x # xs"] exI[of _ st]) simp
  qed
qed

lemma run_suffix: "st' \<in> set (run u ic r st) \<Longrightarrow> suffix (fst st') (fst st)"
proof (induction r arbitrary: st st')
  case (Cat r1 r2)
  then obtain mid where "mid \<in> set (run u ic r1 st)" "st' \<in> set (run u ic r2 mid)" by auto
  with Cat.IH show ?case by (meson suffix_order.trans)
next
  case (Star r)
  have "st' \<in> set (many (run u ic r) n st) \<Longrightarrow> suffix (fst st') (fst st)" for n
  proof (induction n arbitrary: st)
    case 0
    then show ?case by simp
  next
    case (Suc n)
    then consider "st' = st" | mid where "mid \<in> set (run u ic r st)" "st' \<in> set (many (run u ic r) n mid)"
      by auto
    then show ?case
    proof cases
      case 1
      then show ?thesis by simp
    next
      case 2
      with Suc.IH Star.IH show ?thesis by (meson suffix_order.trans)
    qed
  qed
  with Star.prems show ?case by simp
next
  case (Rep lo hi r)
  have "st' \<in> set (between (run u ic r) lo hi st) \<Longrightarrow> suffix (fst st') (fst st)" for lo
  proof (induction hi arbitrary: st lo)
    case 0
    then show ?case by (auto split: if_splits)
  next
    case (Suc hi)
    then consider "st' = st"
      | mid where "mid \<in> set (run u ic r st)" "st' \<in> set (between (run u ic r) (lo - 1) hi mid)"
      by (auto split: if_splits)
    then show ?case
    proof cases
      case 1
      then show ?thesis by simp
    next
      case 2
      with Suc.IH Rep.IH show ?thesis by (meson suffix_order.trans)
    qed
  qed
  with Rep.prems show ?case by simp
qed (auto simp: one_char_def suffix_Cons split: list.splits if_splits)

lemma run_CatE:
  "st' \<in> set (run u ic (Cat r1 r2) st) \<Longrightarrow>
   \<exists>mid. mid \<in> set (run u ic r1 st) \<and> st' \<in> set (run u ic r2 mid)"
  by auto

text \<open>
  The range pattern ends in the plain-years pattern: where the first matches, the second
  matches too, so the third entry of the timeline table is never the one that decides.
\<close>

lemma range_ends_in_years:
  "fst (timeline_patterns ! 2) =
     Cat (Grp digits) (Cat spaces (Cat (word ''to'') (Cat spaces (fst (timeline_patterns ! 0)))))"
  by (simp add: timeline_patterns_def)

lemma range_implies_years:
  assumes "search u False (fst (timeline_patterns ! 2)) t = Some gs"
  shows "search u False (fst (timeline_patterns ! 0)) t \<noteq> None"
proof
  assume none: "search u False (fst (timeline_patterns ! 0)) t = None"
  let ?years = "fst (timeline_patterns ! 0)"
  from search_Some_at[OF assms] obtain s st' where
    s: "suffix s t" "st' \<in> set (run u False (fst (timeline_patterns ! 2)) (s, []))" by blast
  from s(2) have "st' \<in> set (run u False (Cat (Grp digits) (Cat spaces (Cat (word ''to'')
      (Cat spaces ?years)))) (s, []))"
    by (simp only: range_ends_in_years)
  from run_CatE[OF this] obtain m1 where
    m1: "m1 \<in> set (run u False (Grp digits) (s, []))"
        "st' \<in> set (run u False (Cat spaces (Cat (word ''to'') (Cat spaces ?years))) m1)"
    by blast
  from run_CatE[OF m1(2)] obtain m2 where
    m2: "m2 \<in> set (run u False spaces m1)"
        "st' \<in> set (run u False (Cat (word ''to'') (Cat spaces ?years)) m2)"
    by blast
  from run_CatE[OF m2(2)] obtain m3 where
    m3: "m3 \<in> set (run u False (word ''to'') m2)"
        "st' \<in> set (run u False (Cat spaces ?years) m3)"
    by blast
  from run_CatE[OF m3(2)] obtain m4 where
    m4: "m4 \<in> set (run u False spaces m3)" "st' \<in> set (run u False ?years m4)"
    by blast
  note m = m1(1) m2(1) m3(1) m4
  from run_suffix[OF m(1)] run_suffix[OF m(2)] run_suffix[OF m(3)] run_suffix[OF m(4)] s(1)
  have "suffix (fst m4) t" by (auto intro: suffix_order.trans)
  from search_None[OF none this] have "run u False ?years (fst m4, []) = []" .
  moreover from m(5) have "run u False ?years (fst m4, snd m4) \<noteq> []" by auto
  ultimately show False using run_some_groups by blast
qed

lemma range_pattern_unreachable:
  "first_timeline u t timeline_patterns = first_timeline u t (take 2 timeline_patterns)"
proof -
  define p1 where "p1 = fst (timeline_patterns ! 0)"
  define p2 where "p2 = fst (timeline_patterns ! 1)"
  define p3 where "p3 = fst (timeline_patterns ! 2)"
  have tp: "timeline_patterns = [(p1, ''years''), (p2, ''months''), (p3, ''years_range'')]"
    by (simp add: timeline_patterns_def p1_def p2_def p3_def)
  have two: "take 2 [(p1, ''years''), (p2, ''months''), (p3, ''years_range'')]
      = [(p1, ''years''), (p2, ''months'')]" by simp
  show ?thesis
  proof (cases "search u False p1 t")
    case None
    with range_implies_years[of u t] have "search u False p3 t = None"
      unfolding p1_def p3_def by (cases "search u False (fst (timeline_patterns ! 2)) t") auto
    with None show ?thesis unfolding tp two by (simp split: option.splits)
  next
    case (Some gs)
    then show ?thesis unfolding tp two by simp
  qed
qed

text \<open>
  C1. The claim: a text whose first timeline match is a phrase "N to M years" gets the
  repayment timeline "N-M years". The source lists the plain-years pattern first and the
  range pattern last, and the plain-years pattern matches the "M years" inside every such
  phrase (\<open>range_pattern_unreachable\<close> above). On the text "5 to 7 years" the extractor
  returns the single entity repayment_timeline = "7 years" with confidence high, whatever
  the character tables.
\<close>

theorem timeline_range_input:
  "extract_loan_entities u (ustr ''5 to 7 years'') =
     Inr [\<lparr>field = ''repayment_timeline'', val = ustr ''7 years'', confidence = ''high''\<rparr>]"
  by (simp add: eval_all)

section \<open>Amount scaling\<close>

lemma log2_floor_le: "m < 2 ^ Suc n \<Longrightarrow> log2_floor m \<le> n"
proof (induction n arbitrary: m)
  case 0
  then show ?case by (simp add: log2_floor.simps)
next
  case (Suc n)
  show ?case
  proof (cases "m < 2")
    case True
    then show ?thesis by (simp add: log2_floor.simps)
  next
    case False
    from Suc.prems have "m div 2 < 2 ^ Suc n" by simp
    from Suc.IH[OF this] False show ?thesis by (subst log2_floor.simps) simp
  qed
qed

lemma round_half_even_exact: "0 < q \<Longrightarrow> round_half_even (a * q) q = a"
  by (simp add: round_half_even_def)

text \<open>A whole number below \<open>2 ^ 53\<close> is a double: rounding keeps its value.\<close>

lemma to_double_exact:
  assumes "m < 2 ^ 53" "0 < q"
  shows "\<exists>b. 0 < b \<and> to_double (m * q) q = Fin (m * b) b"
proof (cases "m = 0")
  case True
  then show ?thesis by (intro exI[of _ 1]) (simp add: to_double_def)
next
  case False
  with assms(2) have pos: "m * q \<noteq> 0" "q \<le> m * q" by auto
  from assms(1) have "log2_floor m \<le> 52" by (intro log2_floor_le) simp
  with assms(2) pos have lb: "leading_bit (m * q) q \<le> 52" by (simp add: leading_bit_def)
  have lb0: "0 \<le> leading_bit (m * q) q" using pos by (simp add: leading_bit_def)
  define e where "e = max (leading_bit (m * q) q - 52) (- 1074)"
  from lb lb0 have e: "e \<le> 0" "e = leading_bit (m * q) q - 52" by (simp_all add: e_def)
  show ?thesis
  proof (cases "e = 0")
    case True
    from assms(1) have "log2_floor m < 1024" using \<open>log2_floor m \<le> 52\<close> by simp
    with True pos assms(2) round_half_even_exact[OF assms(2), of m] show ?thesis
      by (intro exI[of _ 1]) (simp add: to_double_def e_def[symmetric])
  next
    case False
    with e have neg: "\<not> 0 \<le> e" by simp
    have "round_half_even (m * q * 2 ^ nat (- e)) q = m * 2 ^ nat (- e)"
      using round_half_even_exact[OF assms(2), of "m * 2 ^ nat (- e)"] by (simp add: ac_simps)
    with neg pos show ?thesis
      by (intro exI[of _ "2 ^ nat (- e)"]) (simp add: to_double_def e_def[symmetric])
  qed
qed

lemma py_float_whole:
  assumes "ds \<noteq> []" "list_all (digit u) ds" "digits_value u ds < 2 ^ 53"
  shows "\<exists>b. 0 < b \<and> py_float u ds = Some (Fin (digits_value u ds * b) b)"
proof -
  from assms(2) have no: "\<forall>c\<in>set ds. c \<noteq> 46"
    by (auto simp: list_all_iff dest: digit_not_punct)
  have tw: "takeWhile (\<lambda>c. c \<noteq> 46) ds = ds" using no by (simp add: takeWhile_eq_all_conv)
  have dw: "dropWhile (\<lambda>c. c \<noteq> 46) ds = []" using no by simp
  from to_double_exact[OF assms(3), of 1] obtain b where
    "0 < b" "to_double (digits_value u ds) 1 = Fin (digits_value u ds * b) b" by auto
  then show ?thesis unfolding py_float_def Let_def tw dw using assms(1,2) by simp
qed

text \<open>
  Scaling in general: a numeral without a point whose scaled value stays below \<open>2 ^ 53\<close> is
  converted without any rounding, and formatted as that whole number with its commas.
\<close>

lemma whole_amount_exact:
  assumes "ds \<noteq> []" "list_all (digit u) ds" "scale_factor conversion_type = Some k"
    and "digits_value u ds * k < 2 ^ 53"
  shows "\<exists>x. to_rupees (py_float u) ds conversion_type = Inr x
             \<and> format_0f x = rev (group3 (rev (decimal (digits_value u ds * k))))"
proof -
  from assms(3) have k: "0 < k" by (auto simp: scale_factor_def split: if_splits)
  with assms(4) have "digits_value u ds < 2 ^ 53"
    by (metis One_nat_def Suc_leI le_trans linorder_not_less mult.right_neutral mult_le_mono2)
  from py_float_whole[OF assms(1,2) this] obtain b where
    b: "0 < b" "py_float u ds = Some (Fin (digits_value u ds * b) b)" by blast
  from to_double_exact[OF assms(4) b(1)] obtain b' where
    b': "0 < b'" "to_double (digits_value u ds * k * b) b = Fin (digits_value u ds * k * b') b'"
    by blast
  have mul: "fmul (Fin (digits_value u ds * b) b) k = Fin (digits_value u ds * k * b') b'"
    using b'(2) by (simp add: ac_simps)
  show ?thesis
  proof (cases "k = 1")
    case True
    with assms(3) b show ?thesis
      by (simp add: to_rupees_def format_0f_def round_half_even_exact)
  next
    case False
    with assms(3) b mul b'(1) show ?thesis
      by (simp add: to_rupees_def format_0f_def round_half_even_exact)
  qed
qed


section \<open>Invariants of every result\<close>

text \<open>
  C4. The extractor is total and never raises: for every text, and whatever the character
  tables of the interpreter, the call returns a list of entities. No numeral handed to
  \<open>float\<close> is rejected, no group is missing, no conversion type is unknown.
\<close>

theorem extract_never_raises: "\<exists>es. extract_loan_entities u text = Inr es"
  by (rule extract_total)

text \<open>
  C3. For every text the result holds at most one entity of each field: the field names of
  the returned entities are pairwise distinct.
\<close>

theorem at_most_one_entity_per_field:
  "\<exists>es. extract_loan_entities u text = Inr es \<and> distinct (map field es)"
proof -
  from extract_total obtain es where es: "extract_loan_entities u text = Inr es" by blast
  then have "subseq (map field es) field_order"
    unfolding extract_loan_entities_def by (rule shape_subseq)
  moreover have "distinct field_order" by (simp add: field_order_def)
  ultimately have "distinct (map field es)" by (rule subseq_distinct)
  with es show ?thesis by blast
qed

text \<open>
  C8. For every text, every entity of the result has confidence high or medium, never low:
  loan_type, loan_purpose, loan_amount and repayment_timeline carry high, employment_income
  and bank_relationship carry medium.
\<close>

theorem confidence_high_or_medium:
  "\<exists>es. extract_loan_entities u text = Inr es \<and>
     list_all (\<lambda>e. (field e \<in> {''loan_type'', ''loan_purpose'', ''loan_amount'',
                               ''repayment_timeline''} \<and> confidence e = ''high'')
                  \<or> (field e \<in> {''employment_income'', ''bank_relationship''}
                     \<and> confidence e = ''medium'')) es"
proof -
  from extract_total obtain es where es: "extract_loan_entities u text = Inr es" by blast
  then have "extract_with (py_float u) u text = Inr es" by (simp add: extract_loan_entities_def)
  from shape_confidence[OF this] es show ?thesis by blast
qed

text \<open>
  C10. For every text, the entities of the result stand in the fixed order loan_type,
  loan_purpose, loan_amount, employment_income, repayment_timeline, bank_relationship,
  wherever their phrases stand in the text: the field names of the result are a
  subsequence of that list.
\<close>

theorem entities_in_field_order:
  "\<exists>es. extract_loan_entities u text = Inr es \<and> subseq (map field es) field_order"
proof -
  from extract_total obtain es where es: "extract_loan_entities u text = Inr es" by blast
  then have "subseq (map field es) field_order"
    unfolding extract_loan_entities_def by (rule shape_subseq)
  with es show ?thesis by blast
qed

section \<open>The end-to-end scenario\<close>

lemma scenario_value:
  "extract_loan_entities u scenario_text =
     Inr [\<lparr>field = ''loan_type'', val = ustr ''Home Loan'', confidence = ''high''\<rparr>,
          \<lparr>field = ''loan_purpose'', val = ustr ''Home Purchase'', confidence = ''high''\<rparr>,
          \<lparr>field = ''loan_amount'', val = rupee # ustr ''50,000'', confidence = ''high''\<rparr>,
          \<lparr>field = ''employment_income'',
            val = ustr ''Self-Employed | '' @ rupee # ustr ''50,000'', confidence = ''medium''\<rparr>,
          \<lparr>field = ''repayment_timeline'', val = ustr ''5 years'', confidence = ''high''\<rparr>,
          \<lparr>field = ''bank_relationship'', val = ustr ''Yes'', confidence = ''medium''\<rparr>]"
  by (simp add: scenario_text_def eval_all)

text \<open>
  C2, as stated: on the scenario text the extractor returns loan_type "Home Loan",
  loan_purpose "Home Purchase", loan_amount 1,000,000 rupees, employment_income
  "Self-Employed | 50,000 rupees", repayment_timeline "5 years" and bank_relationship "Yes".
  The result of the source differs from that list: the amount patterns are tried in table
  order, and the thousand pattern, third in the table, finds "50k" before the lakh pattern,
  fourth, is tried on "10 lakh".
\<close>

theorem scenario_as_claimed_fails:
  "extract_loan_entities plain_ucd scenario_text \<noteq>
     Inr [\<lparr>field = ''loan_type'', val = ustr ''Home Loan'', confidence = ''high''\<rparr>,
          \<lparr>field = ''loan_purpose'', val = ustr ''Home Purchase'', confidence = ''high''\<rparr>,
          \<lparr>field = ''loan_amount'', val = rupee # ustr ''1,000,000'', confidence = ''high''\<rparr>,
          \<lparr>field = ''employment_income'',
            val = ustr ''Self-Employed | '' @ rupee # ustr ''50,000'', confidence = ''medium''\<rparr>,
          \<lparr>field = ''repayment_timeline'', val = ustr ''5 years'', confidence = ''high''\<rparr>,
          \<lparr>field = ''bank_relationship'', val = ustr ''Yes'', confidence = ''medium''\<rparr>]"
  by (simp add: scenario_value ustr_def)

text \<open>
  C2, amended: on the scenario text the extractor returns exactly the six entities of the
  claim, except that loan_amount is 50,000 rupees.
\<close>

theorem scenario_result:
  "extract_loan_entities u scenario_text =
     Inr [\<lparr>field = ''loan_type'', val = ustr ''Home Loan'', confidence = ''high''\<rparr>,
          \<lparr>field = ''loan_purpose'', val = ustr ''Home Purchase'', confidence = ''high''\<rparr>,
          \<lparr>field = ''loan_amount'', val = rupee # ustr ''50,000'', confidence = ''high''\<rparr>,
          \<lparr>field = ''employment_income'',
            val = ustr ''Self-Employed | '' @ rupee # ustr ''50,000'', confidence = ''medium''\<rparr>,
          \<lparr>field = ''repayment_timeline'', val = ustr ''5 years'', confidence = ''high''\<rparr>,
          \<lparr>field = ''bank_relationship'', val = ustr ''Yes'', confidence = ''medium''\<rparr>]"
  by (rule scenario_value)

section \<open>Employment precedence\<close>

lemma any_keyword_iff:
  "any_keyword ks t = (\<exists>k\<in>set ks. contains (ustr k) t)"
  by (induction ks) auto

lemma slot_other_field:
  "slot f conf xs \<Longrightarrow> f \<noteq> g \<Longrightarrow> filter (\<lambda>e. field e = g) xs = []"
  by (auto simp: slot_def)

text \<open>
  The employment_income values of a result are decided by the status and the income alone:
  one value when either is there, none otherwise.
\<close>

lemma extract_with_employment_values:
  assumes "extract_with fl u t = Inr es"
  shows "\<exists>income_info. first_money fl u (py_lower u t) income_patterns = Inr income_info
           \<and> employment_values es =
               (if truthy (employment_status (py_lower u t)) \<or> truthy income_info
                then [employment_text (employment_status (py_lower u t)) income_info]
                else [])"
proof -
  define low where "low = py_lower u t"
  define l1 where "l1 = (\<lambda>loan_type. capitalize (ustr loan_type) @ ustr '' Loan'')"
  define l2 where "l2 = (\<lambda>purpose. title (replace_underscores (ustr purpose)))"
  define l6 where "l6 = (\<lambda>relationship. capitalize (ustr relationship))"
  obtain x1 where x1: "scan_table low ''loan_type'' l1 ''high'' loan_types [] = [] @ x1"
    "slot ''loan_type'' ''high'' x1"
    using scan_table_slot by blast
  obtain x2 where x2: "scan_table low ''loan_purpose'' l2 ''high'' purpose_keywords x1 = x1 @ x2"
    "slot ''loan_purpose'' ''high'' x2"
    using scan_table_slot by blast
  from assms obtain amount income_info timeline_value where
    a: "first_money fl u low amount_patterns = Inr amount" and
    i: "first_money fl u low income_patterns = Inr income_info" and
    t: "first_timeline u low timeline_patterns = Inr timeline_value"
    by (auto simp: extract_with_def Let_def low_def split: sum.splits)
  obtain x3 where x3: "add_found ''loan_amount'' ''high'' amount (x1 @ x2) = (x1 @ x2) @ x3"
    "slot ''loan_amount'' ''high'' x3"
    using add_found_slot by blast
  define x4 where "x4 = (if truthy (employment_status low) \<or> truthy income_info
     then [\<lparr>field = ''employment_income'', val = employment_text (employment_status low) income_info,
            confidence = ''medium''\<rparr>] else [])"
  obtain x5 where x5: "add_found ''repayment_timeline'' ''high'' timeline_value (x1 @ x2 @ x3 @ x4)
       = (x1 @ x2 @ x3 @ x4) @ x5" "slot ''repayment_timeline'' ''high'' x5"
    using add_found_slot by blast
  obtain x6 where x6: "scan_table low ''bank_relationship'' l6 ''medium'' relationship_keywords
       (x1 @ x2 @ x3 @ x4 @ x5) = (x1 @ x2 @ x3 @ x4 @ x5) @ x6"
    "slot ''bank_relationship'' ''medium'' x6"
    using scan_table_slot by blast
  have "extract_with fl u t = Inr (x1 @ x2 @ x3 @ x4 @ x5 @ x6)"
    using x1(1) x2(1) a i t x3(1) x5(1) x6(1)
    by (cases "truthy (employment_status low) \<or> truthy income_info")
       (simp_all add: extract_with_def Let_def low_def[symmetric] l1_def[symmetric]
          l2_def[symmetric] l6_def[symmetric] x4_def del: disj_not1 de_Morgan_disj)
  with assms have es: "es = x1 @ x2 @ x3 @ x4 @ x5 @ x6" by simp
  have "employment_values es = map val x4"
    unfolding es employment_values_def filter_append
    using slot_other_field[OF x1(2), of "''employment_income''"]
      slot_other_field[OF x2(2), of "''employment_income''"]
      slot_other_field[OF x3(2), of "''employment_income''"]
      slot_other_field[OF x5(2), of "''employment_income''"]
      slot_other_field[OF x6(2), of "''employment_income''"]
    by (simp add: x4_def)
  with i show ?thesis unfolding low_def[symmetric] x4_def by (intro exI[of _ income_info]) simp
qed

lemma employment_text_prefix:
  "s \<noteq> [] \<Longrightarrow> prefix s (employment_text (Some s) income_info)"
  by (cases income_info) (auto simp: employment_text_def)

lemma first_money_rupee:
  "first_money fl u low ps = Inr (Some v) \<Longrightarrow> prefix [rupee] v"
  by (induction ps) (auto split: option.splits sum.splits prod.splits)

lemma status_reported:
  assumes "employment_status (py_lower u text) = Some s" "s \<noteq> []"
  shows "\<exists>es v. extract_loan_entities u text = Inr es \<and> employment_values es = [v] \<and> prefix s v"
proof -
  from extract_total obtain es where es: "extract_loan_entities u text = Inr es" by blast
  then have "extract_with (py_float u) u text = Inr es" by (simp add: extract_loan_entities_def)
  from extract_with_employment_values[OF this] assms obtain income_info where
    "employment_values es = [employment_text (Some s) income_info]"
    by (auto simp: truthy_def)
  with es employment_text_prefix[OF assms(2), of income_info] show ?thesis by blast
qed

lemma no_status_reported:
  assumes "employment_status (py_lower u text) = None"
  shows "\<exists>es. extract_loan_entities u text = Inr es
            \<and> list_all (prefix [rupee]) (employment_values es)"
proof -
  from extract_total obtain es where es: "extract_loan_entities u text = Inr es" by blast
  then have "extract_with (py_float u) u text = Inr es" by (simp add: extract_loan_entities_def)
  from extract_with_employment_values[OF this] assms obtain income_info where
    i: "first_money (py_float u) u (py_lower u text) income_patterns = Inr income_info"
    and v: "employment_values es =
       (if truthy income_info then [employment_text None income_info] else [])"
    by (auto simp: truthy_def)
  have "list_all (prefix [rupee]) (employment_values es)"
  proof (cases income_info)
    case None
    with v show ?thesis by (simp add: truthy_def)
  next
    case (Some x)
    with i first_money_rupee have "prefix [rupee] x" by blast
    with v Some show ?thesis by (auto simp: truthy_def employment_text_def)
  qed
  with es show ?thesis by blast
qed

text \<open>Three short texts, evaluated.\<close>

lemma extract_self_employed_text:
  "extract_loan_entities u (ustr ''I am self-employed, working as a tailor'') =
     Inr [\<lparr>field = ''employment_income'', val = ustr ''Self-Employed'',
           confidence = ''medium''\<rparr>]"
  by (simp add: eval_all)

lemma extract_unemployed_text:
  "extract_loan_entities u (ustr ''I am Unemployed'') =
     Inr [\<lparr>field = ''employment_income'', val = ustr ''Unemployed'', confidence = ''medium''\<rparr>]"
  by (simp add: eval_all)

lemma extract_working_text:
  "extract_loan_entities u (ustr ''working as a tailor'') =
     Inr [\<lparr>field = ''employment_income'', val = ustr ''Employed'', confidence = ''medium''\<rparr>]"
  by (simp add: eval_all)

text \<open>
  C6. Employment status is decided in the fixed order self-employed, unemployed, employed,
  and the first hit wins. For every text the call returns, and the result holds

    \<^item> exactly one employment_income value, beginning with "Self-Employed", whenever the
      lower-cased text contains a self-employed keyword, whatever unemployed or employed
      keywords it also contains;

    \<^item> otherwise exactly one, beginning with "Unemployed", whenever it contains an unemployed
      keyword, whatever employed keywords it also contains;

    \<^item> otherwise exactly one, beginning with "Employed", whenever it contains an employed
      keyword;

    \<^item> otherwise no status: an employment_income value, if there is one, is an income alone
      and begins with the rupee sign.

  The witness holds a text with both "self-employed" and "working as", a text with
  "Unemployed" (which contains the employed keyword "employed"), and a text with "working as"
  alone.
\<close>

theorem employment_precedence:
  "\<exists>es. extract_loan_entities u text = Inr es \<and>
     (if \<exists>keyword\<in>set self_employed_keywords. contains (ustr keyword) (py_lower u text)
      then \<exists>v. employment_values es = [v] \<and> prefix (ustr ''Self-Employed'') v
      else if \<exists>keyword\<in>set unemployed_keywords. contains (ustr keyword) (py_lower u text)
      then \<exists>v. employment_values es = [v] \<and> prefix (ustr ''Unemployed'') v
      else if \<exists>keyword\<in>set employed_keywords. contains (ustr keyword) (py_lower u text)
      then \<exists>v. employment_values es = [v] \<and> prefix (ustr ''Employed'') v
      else list_all (prefix [rupee]) (employment_values es))"
proof -
  let ?low = "py_lower u text"
  from extract_total obtain es where es: "extract_loan_entities u text = Inr es" by blast
  have ne: "ustr ''Self-Employed'' \<noteq> []" "ustr ''Unemployed'' \<noteq> []" "ustr ''Employed'' \<noteq> []"
    by (simp_all add: ustr_def)
  consider
    (self) "any_keyword self_employed_keywords ?low"
  | (unemp) "\<not> any_keyword self_employed_keywords ?low" "any_keyword unemployed_keywords ?low"
  | (emp) "\<not> any_keyword self_employed_keywords ?low" "\<not> any_keyword unemployed_keywords ?low"
      "any_keyword employed_keywords ?low"
  | (none) "\<not> any_keyword self_employed_keywords ?low" "\<not> any_keyword unemployed_keywords ?low"
      "\<not> any_keyword employed_keywords ?low"
    by blast
  then show ?thesis
  proof cases
    case self
    then have "employment_status ?low = Some (ustr ''Self-Employed'')"
      by (simp add: employment_status_def)
    from status_reported[OF this ne(1)] es self show ?thesis
      by (auto simp: any_keyword_iff)
  next
    case unemp
    then have "employment_status ?low = Some (ustr ''Unemployed'')"
      by (simp add: employment_status_def)
    from status_reported[OF this ne(2)] es unemp show ?thesis
      by (auto simp: any_keyword_iff)
  next
    case emp
    then have "employment_status ?low = Some (ustr ''Employed'')"
      by (simp add: employment_status_def)
    from status_reported[OF this ne(3)] es emp show ?thesis
      by (auto simp: any_keyword_iff)
  next
    case none
    then have "employment_status ?low = None"
      by (simp add: employment_status_def)
    from no_status_reported[OF this] es none show ?thesis
      by (auto simp: any_keyword_iff)
  qed
qed

theorem employment_precedence_witness:
  "(\<exists>keyword\<in>set self_employed_keywords.
       contains (ustr keyword) (py_lower plain_ucd (ustr ''I am self-employed, working as a tailor'')))
   \<and> (\<exists>keyword\<in>set employed_keywords.
       contains (ustr keyword) (py_lower plain_ucd (ustr ''I am self-employed, working as a tailor'')))
   \<and> (\<exists>es v. extract_loan_entities plain_ucd (ustr ''I am self-employed, working as a tailor'')
                 = Inr es
             \<and> employment_values es = [v] \<and> prefix (ustr ''Self-Employed'') v)
   \<and> extract_loan_entities plain_ucd (ustr ''I am self-employed, working as a tailor'') =
       Inr [\<lparr>field = ''employment_income'', val = ustr ''Self-Employed'',
             confidence = ''medium''\<rparr>]
   \<and> \<not> (\<exists>keyword\<in>set self_employed_keywords.
         contains (ustr keyword) (py_lower plain_ucd (ustr ''I am Unemployed'')))
   \<and> (\<exists>keyword\<in>set unemployed_keywords.
         contains (ustr keyword) (py_lower plain_ucd (ustr ''I am Unemployed'')))
   \<and> (\<exists>keyword\<in>set employed_keywords.
         contains (ustr keyword) (py_lower plain_ucd (ustr ''I am Unemployed'')))
   \<and> (\<exists>es v. extract_loan_entities plain_ucd (ustr ''I am Unemployed'') = Inr es
             \<and> employment_values es = [v] \<and> prefix (ustr ''Unemployed'') v)
   \<and> extract_loan_entities plain_ucd (ustr ''I am Unemployed'') =
       Inr [\<lparr>field = ''employment_income'', val = ustr ''Unemployed'', confidence = ''medium''\<rparr>]
   \<and> \<not> (\<exists>keyword\<in>set self_employed_keywords.
         contains (ustr keyword) (py_lower plain_ucd (ustr ''working as a tailor'')))
   \<and> \<not> (\<exists>keyword\<in>set unemployed_keywords.
         contains (ustr keyword) (py_lower plain_ucd (ustr ''working as a tailor'')))
   \<and> (\<exists>keyword\<in>set employed_keywords.
         contains (ustr keyword) (py_lower plain_ucd (ustr ''working as a tailor'')))
   \<and> (\<exists>es v. extract_loan_entities plain_ucd (ustr ''working as a tailor'') = Inr es
             \<and> employment_values es = [v] \<and> prefix (ustr ''Employed'') v)
   \<and> extract_loan_entities plain_ucd (ustr ''working as a tailor'') =
       Inr [\<lparr>field = ''employment_income'', val = ustr ''Employed'', confidence = ''medium''\<rparr>]"
proof -
  let ?t1 = "ustr ''I am self-employed, working as a tailor''"
  let ?t2 = "ustr ''I am Unemployed''"
  let ?t3 = "ustr ''working as a tailor''"
  have a1: "\<exists>keyword\<in>set self_employed_keywords. contains (ustr keyword) (py_lower plain_ucd ?t1)"
    by (simp add: self_employed_keywords_def char_eval)
  have a2: "\<exists>keyword\<in>set employed_keywords. contains (ustr keyword) (py_lower plain_ucd ?t1)"
    by (simp add: employed_keywords_def char_eval)
  have b1: "\<not> (\<exists>keyword\<in>set self_employed_keywords.
                contains (ustr keyword) (py_lower plain_ucd ?t2))"
    by (simp add: self_employed_keywords_def char_eval)
  have b2: "\<exists>keyword\<in>set unemployed_keywords. contains (ustr keyword) (py_lower plain_ucd ?t2)"
    by (simp add: unemployed_keywords_def char_eval)
  have b3: "\<exists>keyword\<in>set employed_keywords. contains (ustr keyword) (py_lower plain_ucd ?t2)"
    by (simp add: employed_keywords_def char_eval)
  have c1: "\<not> (\<exists>keyword\<in>set self_employed_keywords.
                contains (ustr keyword) (py_lower plain_ucd ?t3))"
    by (simp add: self_employed_keywords_def char_eval)
  have c2: "\<not> (\<exists>keyword\<in>set unemployed_keywords.
                contains (ustr keyword) (py_lower plain_ucd ?t3))"
    by (simp add: unemployed_keywords_def char_eval)
  have c3: "\<exists>keyword\<in>set employed_keywords. contains (ustr keyword) (py_lower plain_ucd ?t3)"
    by (simp add: employed_keywords_def char_eval)
  from employment_precedence[of plain_ucd ?t1] a1
  have r1: "\<exists>es v. extract_loan_entities plain_ucd ?t1 = Inr es
             \<and> employment_values es = [v] \<and> prefix (ustr ''Self-Employed'') v"
    by auto
  from employment_precedence[of plain_ucd ?t2] b1 b2
  have r2: "\<exists>es v. extract_loan_entities plain_ucd ?t2 = Inr es
             \<and> employment_values es = [v] \<and> prefix (ustr ''Unemployed'') v"
    by auto
  from employment_precedence[of plain_ucd ?t3] c1 c2 c3
  have r3: "\<exists>es v. extract_loan_entities plain_ucd ?t3 = Inr es
             \<and> employment_values es = [v] \<and> prefix (ustr ''Employed'') v"
    by auto
  from a1 a2 r1 extract_self_employed_text[of plain_ucd] b1 b2 b3 r2
    extract_unemployed_text[of plain_ucd] c1 c2 c3 r3 extract_working_text[of plain_ucd]
  show ?thesis by (intro conjI)
qed

section \<open>The numerals of the amount and income patterns\<close>

lemma in_money_tables:
  "pc \<in> set (amount_patterns @ income_patterns) \<Longrightarrow> money_pattern pc"
  using amount_patterns_ok income_patterns_ok by (auto simp: list_all_iff)

text \<open>
  Whenever an amount or income pattern matches a text, it has a first group, and that group
  without its commas is accepted by \<open>float\<close>: the patterns capture digits, grouping commas and
  at most one point between digits. A matched numeral that does not parse arises for no
  text. The source converts the numeral with a bare \<open>float\<close> call, outside any \<open>try\<close>.
\<close>

lemma matched_numeral_parses:
  assumes "(pattern, conversion_type) \<in> set (amount_patterns @ income_patterns)"
    and "search u True pattern text_lower = Some gs"
  shows "\<exists>g x. group gs 1 = Inr g \<and> py_float u (filter (\<lambda>c. c \<noteq> 44) g) = Some x"
proof -
  from in_money_tables[OF assms(1)] obtain b where
    b: "straight pattern" "top_groups pattern = [b]" "b \<in> numeral_bodies"
    by (auto simp: money_pattern_def)
  from search_groups[OF b(1) assms(2)] b(2) obtain g where g: "gs = [g]" "g \<in> lang u True b"
    by (auto simp: list_all2_Cons2)
  from numeral_body_parses[OF b(3) g(2)] g(1) show ?thesis
    by (auto simp: group_def)
qed

lemma matched_numeral_parses_50k:
  "(amount_patterns ! 2) \<in> set (amount_patterns @ income_patterns)
   \<and> search plain_ucd True (fst (amount_patterns ! 2)) (ustr ''50k'') = Some [ustr ''50'']
   \<and> (\<exists>g x. group [ustr ''50''] 1 = Inr g
          \<and> py_float plain_ucd (filter (\<lambda>c. c \<noteq> 44) g) = Some x)"
proof -
  have p: "amount_patterns ! 2 = (fst (amount_patterns ! 2), snd (amount_patterns ! 2))" by simp
  have h1: "(fst (amount_patterns ! 2), snd (amount_patterns ! 2))
      \<in> set (amount_patterns @ income_patterns)"
    by (simp add: amount_patterns_def)
  have h2: "search plain_ucd True (fst (amount_patterns ! 2)) (ustr ''50k'') = Some [ustr ''50'']"
    by (simp add: char_eval rx_eval table_eval)
  from matched_numeral_parses[OF h1 h2] h1 h2 show ?thesis by simp
qed

section \<open>Determinism and state\<close>

lemma printed_nil: "printed w [] = w"
  by (simp add: printed_def)

lemma printed_printed: "printed (printed w xs) ys = printed w (xs @ ys)"
  by (simp add: printed_def)

lemma print_line_printed: "print_line s w = printed w [s]"
  by (simp add: print_line_def printed_def)

text \<open>
  Each loop with its \<open>print\<close> computes the entities of the loop without it, and leaves the
  process as it was but for the lines written.
\<close>

lemma first_keyword_io_pure:
  "\<exists>ls. first_keyword_io low e line kws ents w = (first_keyword low e kws ents, printed w ls)"
proof (induction kws)
  case Nil
  show ?case using printed_nil[of w] by (intro exI[of _ "[]"]) simp
next
  case (Cons k kws)
  then show ?case by (auto simp: print_line_printed)
qed

lemma scan_table_io_pure:
  "\<exists>ls. scan_table_io low f label conf heading tab ents w
          = (scan_table low f label conf tab ents, printed w ls)"
proof (induction tab arbitrary: ents w)
  case Nil
  show ?case using printed_nil[of w] by (intro exI[of _ "[]"]) simp
next
  case (Cons kv tab)
  obtain key kws where kv: "kv = (key, kws)" by (cases kv)
  let ?e = "\<lparr>field = f, val = label key, confidence = conf\<rparr>"
  obtain l1 where l1: "first_keyword_io low ?e (tick @ ustr heading @ label key) kws ents w
      = (first_keyword low ?e kws ents, printed w l1)"
    using first_keyword_io_pure by blast
  show ?case
  proof (cases "list_ex (\<lambda>e. field e = f) (first_keyword low ?e kws ents)")
    case True
    with kv l1 show ?thesis by (intro exI[of _ l1]) (simp add: Let_def)
  next
    case False
    from Cons.IH[of "first_keyword low ?e kws ents" "printed w l1"] obtain l2 where
      "scan_table_io low f label conf heading tab (first_keyword low ?e kws ents) (printed w l1)
        = (scan_table low f label conf tab (first_keyword low ?e kws ents),
           printed (printed w l1) l2)" by blast
    with kv l1 False show ?thesis
      by (intro exI[of _ "l1 @ l2"]) (simp add: Let_def printed_printed)
  qed
qed

lemma add_found_io_pure:
  "\<exists>ls. add_found_io f conf heading found ents w = (add_found f conf found ents, printed w ls)"
proof (cases found)
  case None
  then show ?thesis using printed_nil[of w]
    by (intro exI[of _ "[]"]) (simp add: add_found_io_def add_found_def)
next
  case (Some v)
  then show ?thesis
    by (intro exI[of _ "[tick @ ustr heading @ v]"])
       (simp add: add_found_io_def add_found_def print_line_printed)
qed

text \<open>
  The call in a process returns what \<open>extract_loan_entities\<close> computes from the text, in every
  state, also when it ends in an exception.
\<close>

lemma extract_loan_entities_io_pure:
  "\<exists>ls. extract_loan_entities_io u text w = (extract_loan_entities u text, printed w ls)"
proof -
  define low where "low = py_lower u text"
  define l1 where "l1 = (\<lambda>loan_type. capitalize (ustr loan_type) @ ustr '' Loan'')"
  define l2 where "l2 = (\<lambda>purpose. title (replace_underscores (ustr purpose)))"
  define l6 where "l6 = (\<lambda>relationship. capitalize (ustr relationship))"
  define e1 where "e1 = scan_table low ''loan_type'' l1 ''high'' loan_types []"
  define e2 where "e2 = scan_table low ''loan_purpose'' l2 ''high'' purpose_keywords e1"
  obtain p1 where p1: "scan_table_io low ''loan_type'' l1 ''high'' ''Found Loan Type: ''
       loan_types [] w = (e1, printed w p1)"
    unfolding e1_def using scan_table_io_pure by blast
  obtain p2 where p2: "scan_table_io low ''loan_purpose'' l2 ''high'' ''Found Loan Purpose: ''
       purpose_keywords e1 (printed w p1) = (e2, printed (printed w p1) p2)"
    unfolding e2_def using scan_table_io_pure by blast
  show ?thesis
  proof (cases "first_money (py_float u) u low amount_patterns")
    case (Inl e)
    with p1 p2 show ?thesis
      by (intro exI[of _ "p1 @ p2"])
         (simp add: extract_loan_entities_io_def extract_loan_entities_def extract_with_def
            Let_def low_def[symmetric] l1_def[symmetric] l2_def[symmetric] printed_printed)
  next
    case (Inr amount)
    define e3 where "e3 = add_found ''loan_amount'' ''high'' amount e2"
    obtain p3 where p3: "add_found_io ''loan_amount'' ''high'' ''Found Loan Amount: '' amount e2
         (printed w (p1 @ p2)) = (e3, printed (printed w (p1 @ p2)) p3)"
      unfolding e3_def using add_found_io_pure by blast
    show ?thesis
    proof (cases "first_money (py_float u) u low income_patterns")
      case (Inl e)
      with p1 p2 p3 Inr show ?thesis
        by (intro exI[of _ "(p1 @ p2) @ p3"])
           (simp add: extract_loan_entities_io_def extract_loan_entities_def extract_with_def
              Let_def low_def[symmetric] l1_def[symmetric] l2_def[symmetric] printed_printed
              e1_def[symmetric] e2_def[symmetric])
    next
      case income: (Inr income_info)
      define e4 where "e4 = (if truthy (employment_status low) \<or> truthy income_info
         then e3 @ [\<lparr>field = ''employment_income'',
                      val = employment_text (employment_status low) income_info,
                      confidence = ''medium''\<rparr>] else e3)"
      define p4 where "p4 = (if truthy (employment_status low) \<or> truthy income_info
         then [tick @ ustr ''Found Employment/Income: ''
                 @ employment_text (employment_status low) income_info] else [])"
      show ?thesis
      proof (cases "first_timeline u low timeline_patterns")
        case (Inl e)
        with p1 p2 p3 Inr income show ?thesis
          by (intro exI[of _ "((p1 @ p2) @ p3) @ p4"])
             (simp add: extract_loan_entities_io_def extract_loan_entities_def extract_with_def
                Let_def low_def[symmetric] l1_def[symmetric] l2_def[symmetric] printed_printed
                e1_def[symmetric] e2_def[symmetric] e3_def[symmetric] p4_def
                print_line_printed printed_nil del: disj_not1 de_Morgan_disj)
      next
        case timeline: (Inr timeline_value)
        define e5 where "e5 = add_found ''repayment_timeline'' ''high'' timeline_value e4"
        define e6 where "e6 = scan_table low ''bank_relationship'' l6 ''medium''
           relationship_keywords e5"
        obtain p5 where p5: "add_found_io ''repayment_timeline'' ''high''
            ''Found Repayment Timeline: '' timeline_value e4 (printed w (((p1 @ p2) @ p3) @ p4))
            = (e5, printed (printed w (((p1 @ p2) @ p3) @ p4)) p5)"
          unfolding e5_def using add_found_io_pure by blast
        obtain p6 where p6: "scan_table_io low ''bank_relationship'' l6 ''medium''
            ''Found Bank Relationship: '' relationship_keywords e5
            (printed w ((((p1 @ p2) @ p3) @ p4) @ p5))
            = (e6, printed (printed w ((((p1 @ p2) @ p3) @ p4) @ p5)) p6)"
          unfolding e6_def using scan_table_io_pure by blast
        from p1 p2 p3 p5 p6 Inr income timeline show ?thesis
          by (intro exI[of _ "((((((p1 @ p2) @ p3) @ p4) @ p5) @ p6)
                @ [tick @ ustr ''Total entities extracted: '' @ decimal (length e6)])"],
              cases "truthy (employment_status low) \<or> truthy income_info")
             (simp_all add: extract_loan_entities_io_def extract_loan_entities_def
                extract_with_def Let_def
                low_def[symmetric] l1_def[symmetric] l2_def[symmetric] l6_def[symmetric]
                printed_printed
                e1_def[symmetric] e2_def[symmetric] e3_def[symmetric] e4_def p4_def
                e5_def e6_def
                print_line_printed printed_nil del: disj_not1 de_Morgan_disj)
      qed
    qed
  qed
qed

text \<open>The call on the text "50k": its result, and the two lines it writes.\<close>

lemma extract_loan_entities_io_50k:
  "extract_loan_entities_io u (ustr ''50k'') w =
     (Inr [\<lparr>field = ''loan_amount'', val = rupee # ustr ''50,000'', confidence = ''high''\<rparr>],
      w\<lparr>console := console w @
          [[32, 32, 10003, 32] @ ustr ''Found Loan Amount: '' @ rupee # ustr ''50,000'',
           [32, 32, 10003, 32] @ ustr ''Total entities extracted: 1'']\<rparr>)"
  by (simp add: eval_all extract_loan_entities_io_def add_found_io_def print_line_def tick_def)

text \<open>
  C9. The extractor is deterministic and stateless. A call is a step of a process: it takes
  the text and the state of the process (the module's settings and the console) and gives a
  result and a state. For every text and all states \<open>w\<close> and \<open>w'\<close>:

    \<^item> the result is the value \<open>extract_loan_entities\<close> computes from the text alone;

    \<^item> the call returns the same result in \<open>w'\<close> as in \<open>w\<close>: nothing of the state is read;

    \<^item> a second call, made in the state an earlier call on any text left behind, returns
      what the first call on this text returns: two calls on one text return equal entity
      sequences;

    \<^item> all a call changes is the console, to which it adds lines: the settings stay as they
      were, and no call leaves anything behind for a later one to read.

  The character tables of the interpreter are fixed for a process and are no part of its
  state; \<open>print\<close> is taken to write its line.
\<close>

theorem extract_stateless:
  "fst (extract_loan_entities_io u text w) = extract_loan_entities u text
   \<and> fst (extract_loan_entities_io u text w') = fst (extract_loan_entities_io u text w)
   \<and> fst (extract_loan_entities_io u text (snd (extract_loan_entities_io u text' w)))
       = fst (extract_loan_entities_io u text w)
   \<and> (\<exists>lines. snd (extract_loan_entities_io u text w) = w\<lparr>console := console w @ lines\<rparr>)"
proof -
  have r: "fst (extract_loan_entities_io u text s) = extract_loan_entities u text" for s
    using extract_loan_entities_io_pure[of u "text" s] by auto
  have "\<exists>lines. snd (extract_loan_entities_io u text w) = w\<lparr>console := console w @ lines\<rparr>"
    using extract_loan_entities_io_pure[of u "text" w] by (auto simp: printed_def)
  with r show ?thesis by simp
qed

end
